(* ===== verification/Prelude.thy ===== *)
theory Prelude
  imports Main "HOL-Library.Word"
begin

text \<open>
  Shared vocabulary of the development: the outcome of a piece of C++ (\<open>'a res\<close>), pointers and
  the object stores they point into, C strings in character arrays, and two interfaces stated as
  locales: an object store (\<open>object_store\<close>, interpreted for every class the program allocates
  with \<open>new\<close>) and a transition system with an invariant (\<open>step_system\<close>).
\<close>

unbundle bit_operations_syntax

named_theorems res_simps \<open>evaluation of outcomes\<close>
named_theorems frame_simps \<open>state components an operation leaves alone\<close>

section \<open>Outcomes\<close>

text \<open>
  A call either does not return (\<open>None\<close>: an endless loop), stops the process or runs into
  undefined behaviour (\<open>Some (Inl f)\<close>), or returns a value (\<open>Some (Inr x)\<close>). The faults are
  \<open>ProcessExit msg\<close> for \<open>errif\<close>/\<open>exit\<close>, and one constructor per kind of undefined
  behaviour the code can reach.
\<close>

datatype fault =
    ProcessExit string
  | NullDeref
  | UseAfterFree
  | OutOfBounds
  | Indeterminate
  | BadFunctionCall
  | MissingReturn

type_synonym 'a res = "(fault + 'a) option"

abbreviation Ok :: "'a \<Rightarrow> 'a res" where
  "Ok x \<equiv> Some (Inr x)"

abbreviation Fault :: "fault \<Rightarrow> 'a res" where
  "Fault f \<equiv> Some (Inl f)"

definition andThen :: "'a res \<Rightarrow> ('a \<Rightarrow> 'b res) \<Rightarrow> 'b res" where
  "andThen m k = (case m of None \<Rightarrow> None | Some (Inl f) \<Rightarrow> Some (Inl f) | Some (Inr x) \<Rightarrow> k x)"

lemma andThen_simps [simp, res_simps]:
  "andThen None k = None"
  "andThen (Fault f) k = Fault f"
  "andThen (Ok x) k = k x"
  by (simp_all add: andThen_def)

lemma andThen_eq_Ok [res_simps]:
  "andThen m k = Ok y \<longleftrightarrow> (\<exists>x. m = Ok x \<and> k x = Ok y)"
  by (auto simp: andThen_def split: option.splits sum.splits)

lemma andThen_eq_Fault [res_simps]:
  "andThen m k = Fault f \<longleftrightarrow> m = Fault f \<or> (\<exists>x. m = Ok x \<and> k x = Fault f)"
  by (auto simp: andThen_def split: option.splits sum.splits)

lemma andThen_eq_None [res_simps]:
  "andThen m k = None \<longleftrightarrow> m = None \<or> (\<exists>x. m = Ok x \<and> k x = None)"
  by (auto simp: andThen_def split: option.splits sum.splits)

text \<open>What a call that returned has gone through: the branch taken and the value of every step.\<close>

lemma split_eq_Ok:
  "(case z of (x, y) \<Rightarrow> f x y) = Ok v \<longleftrightarrow> (\<exists>x y. z = (x, y) \<and> f x y = Ok v)"
  "(if b then m else m') = Ok v \<longleftrightarrow> (if b then m = Ok v else m' = Ok v)"
  by (auto split: prod.splits)

lemmas ok_simps = andThen_eq_Ok split_eq_Ok Let_def

lemma andThen_assoc: "andThen (andThen m k) h = andThen m (\<lambda>x. andThen (k x) h)"
  by (auto simp: andThen_def split: option.splits sum.splits)

lemma andThen_cong [fundef_cong]:
  "m = m' \<Longrightarrow> (\<And>x. m' = Ok x \<Longrightarrow> k x = k' x) \<Longrightarrow> andThen m k = andThen m' k'"
  by (auto simp: andThen_def split: option.splits sum.splits)

lemma andThen_mono [partial_function_mono]:
  assumes "\<And>y. mono_option (\<lambda>f. C y f)"
  shows "mono_option (\<lambda>f. andThen m (\<lambda>y. C y f))"
  using assms by (cases m) (auto simp: monotone_def flat_ord_def andThen_def split: sum.splits)

text \<open>\<open>holds P m\<close>: the call returns a value satisfying \<open>P\<close>; \<open>within F P m\<close>: if it returns,
  the value satisfies \<open>P\<close>, and if it faults, the fault is in \<open>F\<close>.\<close>

definition holds :: "('a \<Rightarrow> bool) \<Rightarrow> 'a res \<Rightarrow> bool" where
  "holds P m \<longleftrightarrow> (case m of Some (Inr x) \<Rightarrow> P x | _ \<Rightarrow> False)"

definition within :: "fault set \<Rightarrow> ('a \<Rightarrow> bool) \<Rightarrow> 'a res \<Rightarrow> bool" where
  "within F P m \<longleftrightarrow> (case m of None \<Rightarrow> True | Some (Inl f) \<Rightarrow> f \<in> F | Some (Inr x) \<Rightarrow> P x)"

lemma holds_simps [simp]:
  "holds P (Ok x) = P x"
  "\<not> holds P (Fault f)"
  "\<not> holds P None"
  by (simp_all add: holds_def)

lemma within_simps [simp]:
  "within F P (Ok x) = P x"
  "within F P (Fault f) \<longleftrightarrow> f \<in> F"
  "within F P None"
  by (simp_all add: within_def)

lemma holds_iff: "holds P m \<longleftrightarrow> (\<exists>x. m = Ok x \<and> P x)"
  by (auto simp: holds_def split: option.splits sum.splits)

lemma holds_within: "holds P m \<Longrightarrow> within F P m"
  by (auto simp: holds_iff)

lemma within_andThen:
  assumes "within F Q m" and "\<And>x. Q x \<Longrightarrow> within F P (k x)"
  shows "within F P (andThen m k)"
proof (cases m)
  case (Some r)
  then show ?thesis using assms by (cases r) auto
qed simp

lemma holds_andThen:
  assumes "holds Q m" and "\<And>x. Q x \<Longrightarrow> holds P (k x)"
  shows "holds P (andThen m k)"
  using assms by (auto simp: holds_iff)

lemma within_Ok: "within F P m \<Longrightarrow> m = Ok x \<Longrightarrow> P x"
  by simp

lemma within_Fault: "within F P m \<Longrightarrow> m = Fault f \<Longrightarrow> f \<in> F"
  by simp

lemma holds_mono: "holds P m \<Longrightarrow> (\<And>x. P x \<Longrightarrow> Q x) \<Longrightarrow> holds Q m"
  by (auto simp: holds_iff)

lemma holds_within_conj:
  "holds P m \<Longrightarrow> within F Q m \<Longrightarrow> holds (\<lambda>x. P x \<and> Q x) m"
  by (auto simp: holds_iff)

lemma within_conj: "within F P m \<Longrightarrow> within G Q m \<Longrightarrow> within F (\<lambda>x. P x \<and> Q x) m"
  by (auto simp: within_def split: option.splits sum.splits)

lemma within_trivial [simp]: "within UNIV (\<lambda>_. True) m"
  by (simp add: within_def split: option.splits sum.splits)

text \<open>\<open>ends m\<close>: the call does not hang.\<close>

definition ends :: "'a res \<Rightarrow> bool" where
  "ends m \<longleftrightarrow> m \<noteq> None"

lemma ends_simps [simp]:
  "ends (Ok x)" "ends (Fault f)" "\<not> ends None"
  "ends (if b then m else m') \<longleftrightarrow> (if b then ends m else ends m')"
  by (simp_all add: ends_def)

lemma ends_andThen: "ends (andThen m k) \<longleftrightarrow> ends m \<and> (\<forall>x. m = Ok x \<longrightarrow> ends (k x))"
  by (auto simp: ends_def andThen_def split: option.splits sum.splits)

lemma ends_split: "ends (case z of (x, y) \<Rightarrow> f x y) \<longleftrightarrow> (\<forall>x y. z = (x, y) \<longrightarrow> ends (f x y))"
  by (auto split: prod.splits)

lemmas ends_cases = ends_andThen ends_split Let_def

lemma holds_ends: "holds P m \<Longrightarrow> ends m"
  by (auto simp: holds_iff)

lemma within_weaken: "within F P m \<Longrightarrow> F \<subseteq> G \<Longrightarrow> (\<And>x. P x \<Longrightarrow> Q x) \<Longrightarrow> within G Q m"
  by (auto simp: within_def split: option.splits sum.splits)

lemma within_mono: "within F P m \<Longrightarrow> (\<And>x. P x \<Longrightarrow> Q x) \<Longrightarrow> within F Q m"
  by (auto simp: within_def split: option.splits sum.splits)

section \<open>Pointers and object stores\<close>

datatype ptr = Null | Ptr (ptr_addr: nat)

type_synonym 'a store = "nat \<rightharpoonup> 'a"

text \<open>
  Following a pointer: the null pointer and a pointer whose object was deleted are faults.
  Addresses come from a counter and are never handed out twice, so a dangling pointer is always
  recognised as one.
\<close>

definition deref :: "'a store \<Rightarrow> ptr \<Rightarrow> 'a res" where
  "deref h p = (case p of Null \<Rightarrow> Fault NullDeref
     | Ptr a \<Rightarrow> (case h a of None \<Rightarrow> Fault UseAfterFree | Some x \<Rightarrow> Ok x))"

lemma deref_simps [simp]:
  "deref h Null = Fault NullDeref"
  "h a = Some x \<Longrightarrow> deref h (Ptr a) = Ok x"
  "h a = None \<Longrightarrow> deref h (Ptr a) = Fault UseAfterFree"
  by (simp_all add: deref_def)

lemma deref_ends [simp]: "ends (deref h p)"
  by (auto simp: deref_def split: ptr.splits option.splits)

lemma deref_eq_Ok: "deref h p = Ok x \<longleftrightarrow> (\<exists>a. p = Ptr a \<and> h a = Some x)"
  by (auto simp: deref_def split: ptr.splits option.splits)

text \<open>
  The contract of a store of objects: what reading a pointer returns after an object was made,
  changed or deleted. \<open>wf\<close> is the store's own well-formedness.
\<close>

locale object_store =
  fixes rd :: "ptr \<Rightarrow> 's \<Rightarrow> 'a res"
    and upd :: "ptr \<Rightarrow> ('a \<Rightarrow> 'a) \<Rightarrow> 's \<Rightarrow> 's res"
    and alloc :: "'a \<Rightarrow> 's \<Rightarrow> ptr \<times> 's"
    and free :: "ptr \<Rightarrow> 's \<Rightarrow> 's res"
    and wf :: "'s \<Rightarrow> bool"
  assumes rd_alloc: "alloc x s = (p, s') \<Longrightarrow> rd p s' = Ok x"
    and rd_alloc_other: "alloc x s = (p, s') \<Longrightarrow> q \<noteq> p \<Longrightarrow> rd q s' = rd q s"
    and alloc_fresh: "wf s \<Longrightarrow> alloc x s = (p, s') \<Longrightarrow> rd p s = Fault UseAfterFree"
    and alloc_wf: "wf s \<Longrightarrow> alloc x s = (p, s') \<Longrightarrow> wf s'"
    and upd_live: "rd p s = Ok x \<Longrightarrow> holds (\<lambda>s'. rd p s' = Ok (f x)) (upd p f s)"
    and upd_dead: "rd p s = Fault e \<Longrightarrow> upd p f s = Fault e"
    and upd_other: "upd p f s = Ok s' \<Longrightarrow> q \<noteq> p \<Longrightarrow> rd q s' = rd q s"
    and upd_wf: "wf s \<Longrightarrow> upd p f s = Ok s' \<Longrightarrow> wf s'"
    and free_live: "rd p s = Ok x \<Longrightarrow> holds (\<lambda>s'. rd p s' = Fault UseAfterFree) (free p s)"
    and free_dead: "rd p s = Fault e \<Longrightarrow> p \<noteq> Null \<Longrightarrow> free p s = Fault e"
    and free_null: "free Null s = Ok s"
    and free_other: "free p s = Ok s' \<Longrightarrow> q \<noteq> p \<Longrightarrow> rd q s' = rd q s"
    and free_wf: "wf s \<Longrightarrow> free p s = Ok s' \<Longrightarrow> wf s'"
    and rd_returns: "rd p s \<noteq> None"
begin

lemma rd_cases: "(\<And>x. rd p s = Ok x \<Longrightarrow> P) \<Longrightarrow> (\<And>e. rd p s = Fault e \<Longrightarrow> P) \<Longrightarrow> P"
  using rd_returns [of p s] by (cases "rd p s") (auto split: sum.splits, metis sum.exhaust)

lemma new_distinct:
  assumes "wf s" and "rd q s = Ok y" and "alloc x s = (p, s')"
  shows "p \<noteq> q"
  using alloc_fresh [OF assms(1) assms(3)] assms(2) by auto

lemma live_after_alloc:
  assumes "wf s" and "rd q s = Ok y" and "alloc x s = (p, s')"
  shows "rd q s' = Ok y"
  using new_distinct [OF assms] rd_alloc_other [OF assms(3)] assms(2) by metis

lemma upd_iff_live: "(\<exists>s'. upd p f s = Ok s') \<longleftrightarrow> (\<exists>x. rd p s = Ok x)"
proof (cases rule: rd_cases [of p s])
  case (1 x)
  then show ?thesis using upd_live [of p s x f] by (auto simp: holds_iff)
next
  case (2 e)
  then show ?thesis using upd_dead [of p s e f] by simp
qed

lemma double_free:
  assumes "free p s = Ok s'" and "p \<noteq> Null"
  shows "free p s' = Fault UseAfterFree"
proof (cases rule: rd_cases [of p s])
  case (1 x)
  then show ?thesis using free_live [of p s x] free_dead assms by (auto simp: holds_iff)
next
  case (2 e)
  then show ?thesis using free_dead [of p s e] assms by simp
qed

lemma use_after_free:
  assumes "free p s = Ok s'" and "p \<noteq> Null"
  shows "upd p f s' = Fault UseAfterFree"
proof (cases rule: rd_cases [of p s])
  case (1 x)
  then show ?thesis using free_live [of p s x] upd_dead assms by (auto simp: holds_iff)
next
  case (2 e)
  then show ?thesis using free_dead [of p s e] assms by simp
qed

end

section \<open>Character arrays and C strings\<close>

text \<open>A byte of an array is \<open>None\<close> while nothing was ever stored there.\<close>

type_synonym byte = "8 word"
type_synonym cell = "byte option"

text \<open>Reading a NUL-terminated string (\<open>%s\<close>, \<open>strcpy\<close>, \<open>strlen\<close>): running off the end of the
  array is out of bounds.\<close>

fun cstr :: "cell list \<Rightarrow> byte list res" where
  "cstr [] = Fault OutOfBounds"
| "cstr (None # cs) = Fault Indeterminate"
| "cstr (Some b # cs) = (if b = 0 then Ok [] else andThen (cstr cs) (\<lambda>bs. Ok (b # bs)))"

text \<open>Storing bytes from an offset on.\<close>

definition store_at :: "cell list \<Rightarrow> int \<Rightarrow> byte list \<Rightarrow> cell list res" where
  "store_at buf off bs =
     (if 0 \<le> off \<and> off + int (length bs) \<le> int (length buf)
      then Ok (take (nat off) buf @ map Some bs @ drop (nat off + length bs) buf)
      else Fault OutOfBounds)"

text \<open>\<open>strcpy(dst, src)\<close> and \<open>strcat(dst, msg)\<close> for a message that is a C string.\<close>

definition strcpy :: "cell list \<Rightarrow> cell list \<Rightarrow> cell list res" where
  "strcpy dst src = andThen (cstr src) (\<lambda>bs. store_at dst 0 (bs @ [0]))"

definition strcat :: "cell list \<Rightarrow> byte list \<Rightarrow> cell list res" where
  "strcat dst msg = andThen (cstr dst) (\<lambda>bs. store_at dst (int (length bs)) (msg @ [0]))"

lemma cstr_append_NUL:
  "0 \<notin> set bs \<Longrightarrow> cstr (map Some bs @ Some 0 # cs) = Ok bs"
  by (induction bs) auto

lemma cstr_takeWhile: "cstr (map Some bs @ Some 0 # cs) = Ok (takeWhile (\<lambda>b. b \<noteq> 0) bs)"
  by (induction bs) auto

text \<open>The text of a message: what is in front of its first NUL.\<close>

definition text_of :: "byte list \<Rightarrow> byte list" where
  "text_of bs = takeWhile (\<lambda>b. b \<noteq> 0) bs"

text \<open>Reading a message from an array that was filled with zeros before.\<close>

lemma cstr_zero_filled: "cstr (map Some bs @ replicate k (Some 0)) = Ok t \<Longrightarrow> t = takeWhile (\<lambda>b. b \<noteq> 0) bs"
  by (induction bs arbitrary: t) (cases k, auto simp: andThen_eq_Ok split: if_splits)

lemma cstr_zeros [simp]: "0 < k \<Longrightarrow> cstr (replicate k (Some 0)) = Ok []"
  by (cases k) simp_all

lemma cstr_Ok_iff:
  "cstr buf = Ok bs \<longleftrightarrow> 0 \<notin> set bs \<and> (\<exists>rest. buf = map Some bs @ Some 0 # rest)"
proof (induction buf arbitrary: bs rule: cstr.induct)
  case (3 b cs)
  then show ?case by (cases bs) (auto simp: andThen_eq_Ok)
qed (auto simp: Cons_eq_append_conv map_eq_Cons_conv)

lemma cstr_returns: "cstr buf \<noteq> None"
  by (induction buf rule: cstr.induct) (auto simp: andThen_def split: sum.splits)

lemma cstr_no_NUL:
  "Some 0 \<notin> set buf \<Longrightarrow> None \<notin> set buf \<Longrightarrow> cstr buf = Fault OutOfBounds"
  by (induction buf rule: cstr.induct) auto

lemma cstr_fault: "None \<notin> set buf \<Longrightarrow> cstr buf = Fault f \<Longrightarrow> f = OutOfBounds"
  by (induction buf rule: cstr.induct) (auto simp: andThen_eq_Fault split: if_splits)

lemma store_at_length: "store_at buf off bs = Ok buf' \<Longrightarrow> length buf' = length buf"
  by (auto simp: store_at_def split: if_splits)

lemma store_at_returns: "store_at buf off bs \<noteq> None"
  by (simp add: store_at_def)

lemma string_ends [simp]: "ends (cstr buf)" "ends (store_at buf off bs)" "ends (strcpy dst src)"
  by (simp_all add: ends_def cstr_returns store_at_returns strcpy_def andThen_eq_None)

lemma strcpy_length: "strcpy dst src = Ok buf \<Longrightarrow> length buf = length dst"
  by (auto simp: strcpy_def andThen_eq_Ok store_at_length)

lemma store_at_cases:
  obtains "store_at buf off bs = Fault OutOfBounds"
  | b where "store_at buf off bs = Ok b" and "length b = length buf"
  by (cases "0 \<le> off \<and> off + int (length bs) \<le> int (length buf)") (auto simp: store_at_def)

lemma store_at_defined:
  "store_at buf off bs = Ok buf' \<Longrightarrow> None \<notin> set buf \<Longrightarrow> None \<notin> set buf'"
  by (auto simp: store_at_def dest: in_set_takeD in_set_dropD split: if_splits)

lemma store_at_append:
  "length pre = n \<Longrightarrow> length bs \<le> length post \<Longrightarrow>
   store_at (pre @ post) (int n) bs = Ok (pre @ map Some bs @ drop (length bs) post)"
  by (auto simp: store_at_def)

lemma strcpy_fits:
  assumes "length dst = length src" and "cstr src = Ok bs"
  shows "strcpy dst src = Ok (map Some bs @ Some 0 # drop (Suc (length bs)) dst)"
proof -
  from assms obtain rest where "src = map Some bs @ Some 0 # rest" by (auto simp: cstr_Ok_iff)
  then have "length bs < length dst" using assms(1) by simp
  then show ?thesis by (simp add: strcpy_def assms(2) store_at_def)
qed

section \<open>Transition systems\<close>

text \<open>
  A deterministic or nondeterministic system given by its initial states and its steps. The
  locale's assumptions are the two obligations of an invariant; what follows from them is shared
  by every component that has reachable states.
\<close>

inductive reach :: "('s \<Rightarrow> bool) \<Rightarrow> ('s \<Rightarrow> 's \<Rightarrow> bool) \<Rightarrow> 's \<Rightarrow> bool" for init step where
  reach_init [intro]: "init s \<Longrightarrow> reach init step s"
| reach_step [intro]: "reach init step s \<Longrightarrow> step s s' \<Longrightarrow> reach init step s'"

locale step_system =
  fixes init :: "'s \<Rightarrow> bool"
    and step :: "'s \<Rightarrow> 's \<Rightarrow> bool"
    and inv :: "'s \<Rightarrow> bool"
  assumes inv_init: "init s \<Longrightarrow> inv s"
    and inv_step: "inv s \<Longrightarrow> step s s' \<Longrightarrow> inv s'"
begin

lemma inv_reach: "reach init step s \<Longrightarrow> inv s"
  by (induction rule: reach.induct) (auto intro: inv_init inv_step)

lemma inv_steps: "step\<^sup>*\<^sup>* s s' \<Longrightarrow> inv s \<Longrightarrow> inv s'"
  by (induction rule: rtranclp_induct) (auto intro: inv_step)

lemma reach_steps: "reach init step s \<Longrightarrow> step\<^sup>*\<^sup>* s s' \<Longrightarrow> reach init step s'"
  by (rotate_tac, induction rule: rtranclp_induct) auto

end

text \<open>
  A system that implements another one: a map from its states to the other's, under which an
  initial state is initial and a step of a state that satisfies the invariant is a step of the
  other system or is not visible there.
\<close>

locale simulation = step_system +
  fixes ainit :: "'b \<Rightarrow> bool"
    and astep :: "'b \<Rightarrow> 'b \<Rightarrow> bool"
    and abs :: "'a \<Rightarrow> 'b"
  assumes abs_init: "init s \<Longrightarrow> ainit (abs s)"
    and abs_step: "inv s \<Longrightarrow> step s s' \<Longrightarrow> abs s' = abs s \<or> astep (abs s) (abs s')"
begin

lemma abs_reach: "reach init step s \<Longrightarrow> reach ainit astep (abs s)"
proof (induction rule: reach.induct)
  case (reach_step s s')
  then show ?case using abs_step [OF inv_reach [OF reach_step.hyps(1)] reach_step.hyps(2)] by auto
qed (auto intro: abs_init)

lemma abs_steps: "step\<^sup>*\<^sup>* s s' \<Longrightarrow> inv s \<Longrightarrow> astep\<^sup>*\<^sup>* (abs s) (abs s')"
proof (induction rule: rtranclp_induct)
  case (step t t')
  then have "inv t" using inv_steps by blast
  then show ?case using abs_step [OF _ step.hyps(2)] step.IH [OF step.prems] by (auto intro: rtranclp.intros)
qed simp

lemma abs_invariant:
  assumes "step_system ainit astep ainv" and "reach init step s"
  shows "ainv (abs s)"
  using step_system.inv_reach [OF assms(1) abs_reach [OF assms(2)]] .

end

end
