(* ===== verification/Os.thy ===== *)
theory Os
  imports Prelude
begin

text \<open>
  The operating system below the program. The kernel is not part of the repository: its state is
  an arbitrary type \<open>'w\<close> and its calls are the fields of a record \<open>'w os\<close> that every definition
  takes as an argument. A call takes the kernel's state and returns the call's result with the
  next state; as \<open>'w\<close> is arbitrary, it may hold any script of answers. The state of the program
  starts with the record \<open>machine\<close>: the kernel's state and the sequence of calls made so far
  (\<open>trace\<close>, a history variable: no definition reads it).
\<close>

section \<open>Data that crosses the system call boundary\<close>

record sockaddr_in =
  sin_family :: "16 word"
  sin_port :: "16 word"
  sin_addr :: "32 word"

record epoll_event =
  events :: "32 word"
  data_fd :: int

datatype ctl_op = EPOLL_CTL_ADD | EPOLL_CTL_MOD | EPOLL_CTL_DEL

definition AF_INET :: "16 word" where "AF_INET = 2"
definition EPOLLIN :: "32 word" where "EPOLLIN = 1"
definition EPOLLOUT :: "32 word" where "EPOLLOUT = 4"
definition EPOLLERR :: "32 word" where "EPOLLERR = 8"
definition EPOLLHUP :: "32 word" where "EPOLLHUP = 16"
definition EPOLLET :: "32 word" where "EPOLLET = 2147483648"
definition O_NONBLOCK :: "32 word" where "O_NONBLOCK = 2048"
definition EAGAIN :: int where "EAGAIN = 11"
definition EWOULDBLOCK :: int where "EWOULDBLOCK = 11"

lemmas flag_defs = EPOLLIN_def EPOLLOUT_def EPOLLERR_def EPOLLHUP_def EPOLLET_def

text \<open>\<open>ev & flag\<close> as a condition.\<close>

definition has_flag :: "32 word \<Rightarrow> 32 word \<Rightarrow> bool" where
  "has_flag ev flag \<longleftrightarrow> ev AND flag \<noteq> 0"

text \<open>The event bits the kernel may report for a registration with the bits \<open>req\<close>: those asked
  for, and the two that are always reported.\<close>

definition reportable :: "32 word \<Rightarrow> 32 word" where
  "reportable req = req OR EPOLLERR OR EPOLLHUP"

section \<open>The kernel's interface\<close>

record 'w os =
  os_inet_addr :: "string \<Rightarrow> 32 word"
  os_errno :: "'w \<Rightarrow> int"
  os_socket :: "'w \<Rightarrow> int \<times> 'w"
  os_bind :: "int \<Rightarrow> sockaddr_in \<Rightarrow> 32 word \<Rightarrow> 'w \<Rightarrow> int \<times> 'w"
  os_listen :: "int \<Rightarrow> int \<Rightarrow> 'w \<Rightarrow> int \<times> 'w"
  os_accept :: "int \<Rightarrow> 'w \<Rightarrow> (int \<times> sockaddr_in \<times> 32 word) \<times> 'w"
  os_connect :: "int \<Rightarrow> sockaddr_in \<Rightarrow> 32 word \<Rightarrow> 'w \<Rightarrow> int \<times> 'w"
  os_getfl :: "int \<Rightarrow> 'w \<Rightarrow> 32 word \<times> 'w"
  os_setfl :: "int \<Rightarrow> 32 word \<Rightarrow> 'w \<Rightarrow> int \<times> 'w"
  os_epoll_create :: "'w \<Rightarrow> int \<times> 'w"
  os_epoll_ctl :: "int \<Rightarrow> ctl_op \<Rightarrow> int \<Rightarrow> epoll_event option \<Rightarrow> 'w \<Rightarrow> int \<times> 'w"
  os_epoll_wait :: "int \<Rightarrow> nat \<Rightarrow> int \<Rightarrow> 'w \<Rightarrow> (int \<times> epoll_event list) \<times> 'w"
  os_recv :: "int \<Rightarrow> nat \<Rightarrow> 'w \<Rightarrow> (int \<times> byte list) \<times> 'w"
  os_send :: "int \<Rightarrow> cell list \<Rightarrow> 'w \<Rightarrow> int \<times> 'w"
  os_write :: "int \<Rightarrow> cell list \<Rightarrow> 'w \<Rightarrow> int \<times> 'w"
  os_close :: "int \<Rightarrow> 'w \<Rightarrow> int \<times> 'w"

datatype syscall =
    SysSocket int
  | SysBind int sockaddr_in "32 word"
  | SysListen int int
  | SysAccept int int
  | SysConnect int sockaddr_in
  | SysSetFl int "32 word"
  | SysEpollCreate int
  | SysEpollCtl ctl_op int "epoll_event option"
  | SysEpollWait int
  | SysRecv int nat int "byte list"
  | SysSend int "cell list"
  | SysWrite int "cell list"
  | SysClose int
  | OutClient int
  | OutRecv "byte list"

record 'w machine =
  kernel :: 'w
  trace :: "syscall list"

section \<open>The calls as the program makes them\<close>

definition log :: "syscall \<Rightarrow> ('w, 'z) machine_scheme \<Rightarrow> ('w, 'z) machine_scheme" where
  "log e s = s\<lparr>trace := trace s @ [e]\<rparr>"

definition sys_socket :: "'w os \<Rightarrow> ('w, 'z) machine_scheme \<Rightarrow> int \<times> ('w, 'z) machine_scheme" where
  "sys_socket os s = (let (r, w) = os_socket os (kernel s) in (r, log (SysSocket r) (s\<lparr>kernel := w\<rparr>)))"

definition sys_bind :: "'w os \<Rightarrow> int \<Rightarrow> sockaddr_in \<Rightarrow> 32 word \<Rightarrow> ('w, 'z) machine_scheme \<Rightarrow> int \<times> ('w, 'z) machine_scheme" where
  "sys_bind os fd a sz s =
     (let (r, w) = os_bind os fd a sz (kernel s) in (r, log (SysBind fd a sz) (s\<lparr>kernel := w\<rparr>)))"

definition sys_listen :: "'w os \<Rightarrow> int \<Rightarrow> int \<Rightarrow> ('w, 'z) machine_scheme \<Rightarrow> int \<times> ('w, 'z) machine_scheme" where
  "sys_listen os fd n s =
     (let (r, w) = os_listen os fd n (kernel s) in (r, log (SysListen fd n) (s\<lparr>kernel := w\<rparr>)))"

definition sys_accept :: "'w os \<Rightarrow> int \<Rightarrow> ('w, 'z) machine_scheme \<Rightarrow>
    (int \<times> sockaddr_in \<times> 32 word) \<times> ('w, 'z) machine_scheme" where
  "sys_accept os fd s =
     (let (r, w) = os_accept os fd (kernel s) in (r, log (SysAccept fd (fst r)) (s\<lparr>kernel := w\<rparr>)))"

definition sys_connect :: "'w os \<Rightarrow> int \<Rightarrow> sockaddr_in \<Rightarrow> 32 word \<Rightarrow> ('w, 'z) machine_scheme \<Rightarrow> int \<times> ('w, 'z) machine_scheme" where
  "sys_connect os fd a sz s =
     (let (r, w) = os_connect os fd a sz (kernel s) in (r, log (SysConnect fd a) (s\<lparr>kernel := w\<rparr>)))"

text \<open>\<open>fcntl(fd, F_SETFL, fcntl(fd, F_GETFL, 0) | O_NONBLOCK)\<close>.\<close>

definition sys_setfl_nonblock :: "'w os \<Rightarrow> int \<Rightarrow> ('w, 'z) machine_scheme \<Rightarrow> ('w, 'z) machine_scheme" where
  "sys_setfl_nonblock os fd s =
     (let (fl, w) = os_getfl os fd (kernel s);
          (r, w') = os_setfl os fd (fl OR O_NONBLOCK) w
      in log (SysSetFl fd (fl OR O_NONBLOCK)) (s\<lparr>kernel := w'\<rparr>))"

definition sys_epoll_create :: "'w os \<Rightarrow> ('w, 'z) machine_scheme \<Rightarrow> int \<times> ('w, 'z) machine_scheme" where
  "sys_epoll_create os s =
     (let (r, w) = os_epoll_create os (kernel s) in (r, log (SysEpollCreate r) (s\<lparr>kernel := w\<rparr>)))"

definition sys_epoll_ctl :: "'w os \<Rightarrow> int \<Rightarrow> ctl_op \<Rightarrow> int \<Rightarrow> epoll_event option \<Rightarrow>
    ('w, 'z) machine_scheme \<Rightarrow> ('w, 'z) machine_scheme" where
  "sys_epoll_ctl os ep op fd ev s =
     (let (r, w) = os_epoll_ctl os ep op fd ev (kernel s) in log (SysEpollCtl op fd ev) (s\<lparr>kernel := w\<rparr>))"

definition sys_epoll_wait :: "'w os \<Rightarrow> int \<Rightarrow> nat \<Rightarrow> int \<Rightarrow> ('w, 'z) machine_scheme \<Rightarrow>
    (int \<times> epoll_event list) \<times> ('w, 'z) machine_scheme" where
  "sys_epoll_wait os ep cap timeout s =
     (let (r, w) = os_epoll_wait os ep cap timeout (kernel s) in (r, log (SysEpollWait (fst r)) (s\<lparr>kernel := w\<rparr>)))"

definition sys_recv :: "'w os \<Rightarrow> int \<Rightarrow> nat \<Rightarrow> ('w, 'z) machine_scheme \<Rightarrow>
    (int \<times> byte list) \<times> ('w, 'z) machine_scheme" where
  "sys_recv os fd len s =
     (let (r, w) = os_recv os fd len (kernel s) in (r, log (SysRecv fd len (fst r) (snd r)) (s\<lparr>kernel := w\<rparr>)))"

definition sys_send :: "'w os \<Rightarrow> int \<Rightarrow> cell list \<Rightarrow> ('w, 'z) machine_scheme \<Rightarrow> ('w, 'z) machine_scheme" where
  "sys_send os fd cs s = (let (r, w) = os_send os fd cs (kernel s) in log (SysSend fd cs) (s\<lparr>kernel := w\<rparr>))"

definition sys_write :: "'w os \<Rightarrow> int \<Rightarrow> cell list \<Rightarrow> ('w, 'z) machine_scheme \<Rightarrow> ('w, 'z) machine_scheme" where
  "sys_write os fd cs s = (let (r, w) = os_write os fd cs (kernel s) in log (SysWrite fd cs) (s\<lparr>kernel := w\<rparr>))"

definition sys_close :: "'w os \<Rightarrow> int \<Rightarrow> ('w, 'z) machine_scheme \<Rightarrow> ('w, 'z) machine_scheme" where
  "sys_close os fd s = (let (r, w) = os_close os fd (kernel s) in log (SysClose fd) (s\<lparr>kernel := w\<rparr>))"

definition errno :: "'w os \<Rightarrow> ('w, 'z) machine_scheme \<Rightarrow> int" where
  "errno os s = os_errno os (kernel s)"

text \<open>The condition that ends a receive loop: end of stream, or nothing more to read now.\<close>

definition would_block :: "int \<Rightarrow> bool" where
  "would_block e \<longleftrightarrow> e = EAGAIN \<or> e = EWOULDBLOCK"

text \<open>A stretch of the history that consists of \<open>recv\<close> calls on \<open>fd\<close>.\<close>

definition only_recv :: "int \<Rightarrow> syscall list \<Rightarrow> bool" where
  "only_recv fd calls \<longleftrightarrow> (\<forall>e\<in>set calls. \<exists>k r bs. e = SysRecv fd k r bs)"

text \<open>The bytes received in a stretch of the history.\<close>

fun received_bytes :: "syscall list \<Rightarrow> byte list" where
  "received_bytes [] = []"
| "received_bytes (SysRecv f k r bs # t) = bs @ received_bytes t"
| "received_bytes (_ # t) = received_bytes t"

lemma received_bytes_append [simp]: "received_bytes (t @ u) = received_bytes t @ received_bytes u"
  by (induction t rule: received_bytes.induct) auto

lemma log_sel [simp]:
  "kernel (log e s) = kernel s"
  "trace (log e s) = trace s @ [e]"
  "machine.more (log e s) = machine.more s"
  by (simp_all add: log_def)

lemmas sys_defs =
  sys_socket_def sys_bind_def sys_listen_def sys_accept_def sys_connect_def sys_setfl_nonblock_def
  sys_epoll_create_def sys_epoll_ctl_def sys_epoll_wait_def sys_recv_def sys_send_def
  sys_write_def sys_close_def

lemma sys_trace [simp]:
  "trace (sys_epoll_ctl os ep op fd ev s) = trace s @ [SysEpollCtl op fd ev]"
  "trace (sys_write os fd cs s) = trace s @ [SysWrite fd cs]"
  "trace (sys_send os fd cs s) = trace s @ [SysSend fd cs]"
  "trace (sys_close os fd s) = trace s @ [SysClose fd]"
  by (simp_all add: sys_defs Let_def split: prod.splits)

lemma setfl_trace: "\<exists>fl. trace (sys_setfl_nonblock os fd s) = trace s @ [SysSetFl fd fl]"
  by (auto simp: sys_defs Let_def split: prod.splits)

text \<open>Memory of the program is not touched by a system call.\<close>

lemma sys_more [frame_simps]:
  "machine.more (snd (sys_socket os s)) = machine.more s"
  "machine.more (snd (sys_bind os fd a sz s)) = machine.more s"
  "machine.more (snd (sys_listen os fd n s)) = machine.more s"
  "machine.more (snd (sys_accept os fd s)) = machine.more s"
  "machine.more (sys_setfl_nonblock os fd s) = machine.more s"
  "machine.more (sys_epoll_ctl os ep op fd ev s) = machine.more s"
  "machine.more (snd (sys_epoll_wait os ep cap t s)) = machine.more s"
  "machine.more (snd (sys_recv os fd len s)) = machine.more s"
  "machine.more (sys_write os fd cs s) = machine.more s"
  "machine.more (sys_close os fd s) = machine.more s"
  by (simp_all add: sys_defs Let_def split: prod.splits)

section \<open>What the program relies on\<close>

text \<open>
  The documented behaviour of the calls, over a view \<open>watch\<close> of the kernel's state: the interest
  list of the epoll instance, from descriptors to the registered event. Nothing is assumed about
  the success of a call.
  \<^item> \<open>accept(2)\<close>, \<open>socket(2)\<close>: \<open>-1\<close>, or a descriptor that was not open, hence not registered.
  \<^item> \<open>epoll_ctl(2)\<close>: adds, changes or removes the one entry when it returns 0, does nothing when
    it fails.
  \<^item> \<open>epoll_wait(2)\<close>: fails with \<open>-1\<close>, or reports distinct registered descriptors, each with the
    registered user data and with event bits that were asked for (or the two always reported).
  \<^item> \<open>close(2)\<close>: the descriptor leaves the interest list.
  \<^item> \<open>recv(2)\<close>: fails with \<open>-1\<close>, or stores as many bytes as it returns, at most as many as fit.
\<close>

type_synonym 'w watch = "'w \<Rightarrow> int \<rightharpoonup> epoll_event"

definition wait_report :: "(int \<rightharpoonup> epoll_event) \<Rightarrow> epoll_event list \<Rightarrow> bool" where
  "wait_report reg evs \<longleftrightarrow>
     (\<exists>fds. distinct fds \<and>
        list_all2 (\<lambda>fd ev. \<exists>e. reg fd = Some e \<and> data_fd ev = data_fd e \<and>
          events ev AND NOT (reportable (events e)) = 0) fds evs)"

definition accept_ok :: "'w os \<Rightarrow> 'w watch \<Rightarrow> bool" where
  "accept_ok os watch \<longleftrightarrow> (\<forall>fd w r a sz w'. os_accept os fd w = ((r, a, sz), w') \<longrightarrow>
     watch w' = watch w \<and> (r = -1 \<or> 0 \<le> r \<and> watch w r = None))"

definition ctl_ok :: "'w os \<Rightarrow> 'w watch \<Rightarrow> bool" where
  "ctl_ok os watch \<longleftrightarrow> (\<forall>ep op fd ev w r w'. os_epoll_ctl os ep op fd ev w = (r, w') \<longrightarrow>
     (if r = 0
      then (op = EPOLL_CTL_DEL \<longrightarrow> watch w' = (watch w)(fd := None)) \<and>
           (op \<noteq> EPOLL_CTL_DEL \<longrightarrow> 0 \<le> fd \<and> (\<exists>e. ev = Some e \<and> watch w' = (watch w)(fd \<mapsto> e))) \<and>
           (op = EPOLL_CTL_MOD \<longrightarrow> watch w fd \<noteq> None)
      else watch w' = watch w))"

definition wait_ok :: "'w os \<Rightarrow> 'w watch \<Rightarrow> bool" where
  "wait_ok os watch \<longleftrightarrow> (\<forall>ep cap t w n evs w'. os_epoll_wait os ep cap t w = ((n, evs), w') \<longrightarrow>
     watch w' = watch w \<and>
     (n = -1 \<and> evs = [] \<or> n = int (length evs) \<and> length evs \<le> cap \<and> wait_report (watch w) evs))"

definition close_ok :: "'w os \<Rightarrow> 'w watch \<Rightarrow> bool" where
  "close_ok os watch \<longleftrightarrow> (\<forall>fd w. watch (snd (os_close os fd w)) = (watch w)(fd := None))"

definition frame_ok :: "'w os \<Rightarrow> 'w watch \<Rightarrow> bool" where
  "frame_ok os watch \<longleftrightarrow>
     (\<forall>fd len w. watch (snd (os_recv os fd len w)) = watch w) \<and>
     (\<forall>fd cs w. watch (snd (os_write os fd cs w)) = watch w) \<and>
     (\<forall>fd w. watch (snd (os_getfl os fd w)) = watch w) \<and>
     (\<forall>fd fl w. watch (snd (os_setfl os fd fl w)) = watch w) \<and>
     (\<forall>fd a sz w. watch (snd (os_bind os fd a sz w)) = watch w) \<and>
     (\<forall>fd n w. watch (snd (os_listen os fd n w)) = watch w) \<and>
     (\<forall>w. watch (snd (os_epoll_create os w)) = watch w) \<and>
     (\<forall>w r w'. os_socket os w = (r, w') \<longrightarrow> watch w' = watch w)"

definition epoll_contract :: "'w os \<Rightarrow> 'w watch \<Rightarrow> bool" where
  "epoll_contract os watch \<longleftrightarrow>
     accept_ok os watch \<and> ctl_ok os watch \<and> wait_ok os watch \<and> close_ok os watch \<and> frame_ok os watch"

definition recv_contract :: "'w os \<Rightarrow> bool" where
  "recv_contract os \<longleftrightarrow> (\<forall>fd len w r bs w'. os_recv os fd len w = ((r, bs), w') \<longrightarrow>
     r = -1 \<and> bs = [] \<or> 0 \<le> r \<and> r = int (length bs) \<and> length bs \<le> len)"

text \<open>A connection on which \<open>recv\<close> fails in no other way than \<open>EAGAIN\<close>.\<close>

definition recv_soft :: "'w os \<Rightarrow> bool" where
  "recv_soft os \<longleftrightarrow> (\<forall>fd len w r bs w'. os_recv os fd len w = ((r, bs), w') \<longrightarrow>
     r < 0 \<longrightarrow> would_block (os_errno os w'))"

text \<open>What the contract says of the interest list after a call.\<close>

lemma watch_frame:
  assumes "epoll_contract os watch"
  shows "sys_recv os f k s = (r, s1) \<Longrightarrow> watch (kernel s1) = watch (kernel s)"
    and "watch (kernel (sys_write os f cs s)) = watch (kernel s)"
    and "watch (kernel (sys_setfl_nonblock os f s)) = watch (kernel s)"
    and "watch (kernel (sys_close os f s)) = (watch (kernel s))(f := None)"
    and "watch (kernel (snd (sys_bind os f ad sz s))) = watch (kernel s)"
    and "watch (kernel (snd (sys_listen os f n s))) = watch (kernel s)"
    and "watch (kernel (snd (sys_epoll_create os s))) = watch (kernel s)"
    and "watch (kernel (snd (sys_socket os s))) = watch (kernel s)"
  using assms unfolding epoll_contract_def frame_ok_def close_ok_def
  by (auto simp: sys_defs Let_def split: prod.splits) (metis snd_conv)+

lemma watch_recv:
  assumes "epoll_contract os watch" and "os_recv os f k w = (ans, w')"
  shows "watch w' = watch w"
  using assms unfolding epoll_contract_def frame_ok_def by (metis snd_conv)

lemma watch_accept:
  assumes "epoll_contract os watch" and "os_accept os f w = ((r, ad, sz), w')"
  shows "watch w' = watch w" and "r = -1 \<or> 0 \<le> r \<and> watch w r = None"
  using assms unfolding epoll_contract_def accept_ok_def by metis+

lemma watch_ctl:
  assumes "epoll_contract os watch"
  shows "watch (kernel (sys_epoll_ctl os ep op f ev s)) = watch (kernel s) \<or>
     (if op = EPOLL_CTL_DEL then watch (kernel (sys_epoll_ctl os ep op f ev s)) = (watch (kernel s))(f := None)
      else 0 \<le> f \<and> (\<exists>e. ev = Some e \<and> watch (kernel (sys_epoll_ctl os ep op f ev s)) = (watch (kernel s))(f \<mapsto> e)))"
proof -
  obtain r w' where ctl: "os_epoll_ctl os ep op f ev (kernel s) = (r, w')" by (metis surj_pair)
  then have "watch w' = watch (kernel s) \<or>
     (if op = EPOLL_CTL_DEL then watch w' = (watch (kernel s))(f := None)
      else 0 \<le> f \<and> (\<exists>e. ev = Some e \<and> watch w' = (watch (kernel s))(f \<mapsto> e)))"
    using assms unfolding epoll_contract_def ctl_ok_def by (metis (full_types))
  moreover have "kernel (sys_epoll_ctl os ep op f ev s) = w'" using ctl by (simp add: sys_epoll_ctl_def)
  ultimately show ?thesis by (simp only:)
qed

lemma has_flag_reportable:
  assumes "ev AND NOT (reportable req) = 0" and "has_flag ev f" and "f = EPOLLIN \<or> f = EPOLLOUT"
  shows "has_flag req f"
proof -
  have "ev = ev AND (reportable req OR NOT (reportable req))" by simp
  then have ev: "ev = ev AND reportable req"
    using assms(1) by (simp only: bit.conj_disj_distrib) simp
  have "reportable req AND f = req AND f"
    using assms(3) by (auto simp: reportable_def flag_defs bit.conj_disj_distrib2 or.assoc)
  then have "ev AND f = ev AND (req AND f)" by (metis ev and.assoc)
  then show ?thesis using assms(2) by (auto simp: has_flag_def)
qed

text \<open>
  The documented behaviour of the calls that open and close descriptors, over a view \<open>opened\<close> of
  the kernel's state: the set of the process's open descriptors. A call that opens one returns
  \<open>-1\<close>, or a descriptor that was not open and now is; \<open>close\<close> closes; the other calls do neither.
\<close>

definition opens :: "('w \<Rightarrow> int set) \<Rightarrow> 'w \<Rightarrow> int \<Rightarrow> 'w \<Rightarrow> bool" where
  "opens opened w r w' \<longleftrightarrow> r = -1 \<and> opened w' = opened w \<or>
     0 \<le> r \<and> r \<notin> opened w \<and> opened w' = insert r (opened w)"

definition fd_contract :: "'w os \<Rightarrow> ('w \<Rightarrow> int set) \<Rightarrow> bool" where
  "fd_contract os opened \<longleftrightarrow>
     (\<forall>w. opens opened w (fst (os_socket os w)) (snd (os_socket os w))) \<and>
     (\<forall>w. opens opened w (fst (os_epoll_create os w)) (snd (os_epoll_create os w))) \<and>
     (\<forall>f w. opens opened w (fst (fst (os_accept os f w))) (snd (os_accept os f w))) \<and>
     (\<forall>f w. opened (snd (os_close os f w)) = opened w - {f}) \<and>
     (\<forall>f len w. opened (snd (os_recv os f len w)) = opened w) \<and>
     (\<forall>f cs w. opened (snd (os_write os f cs w)) = opened w) \<and>
     (\<forall>f w. opened (snd (os_getfl os f w)) = opened w) \<and>
     (\<forall>f fl w. opened (snd (os_setfl os f fl w)) = opened w) \<and>
     (\<forall>f a sz w. opened (snd (os_bind os f a sz w)) = opened w) \<and>
     (\<forall>f n w. opened (snd (os_listen os f n w)) = opened w) \<and>
     (\<forall>ep op f ev w. opened (snd (os_epoll_ctl os ep op f ev w)) = opened w) \<and>
     (\<forall>ep cap t w. opened (snd (os_epoll_wait os ep cap t w)) = opened w)"

lemma fd_frame:
  assumes "fd_contract os opened"
  shows "opened (kernel (sys_setfl_nonblock os f s)) = opened (kernel s)"
    "opened (kernel (sys_epoll_ctl os ep op f ev s)) = opened (kernel s)"
    "opened (kernel (sys_write os f cs s)) = opened (kernel s)"
    "opened (kernel (sys_close os f s)) = opened (kernel s) - {f}"
    "opened (kernel (snd (sys_bind os f ad sz s))) = opened (kernel s)"
    "opened (kernel (snd (sys_listen os f n s))) = opened (kernel s)"
    "opened (kernel (snd (sys_epoll_wait os ep cap t s))) = opened (kernel s)"
    "opened (snd (os_recv os f len w)) = opened w"
  using assms by (simp_all add: fd_contract_def sys_defs split_beta Let_def)

end
