(* ===== verification/InetAddress.thy ===== *)
theory InetAddress
  imports Os
begin

text \<open>
  \<open>inc/InetAddress.hpp\<close>, \<open>src/InetAddress.cpp\<close>: the socket address with its size, the two
  constructors, and the heap of \<open>InetAddress\<close> objects (\<open>new\<close>/\<open>delete\<close>). The text-to-address
  conversion \<open>inet_addr\<close> is the kernel record's \<open>os_inet_addr\<close>.
\<close>

record InetAddress =
  addr :: sockaddr_in
  addr_sz :: "32 word"

text \<open>\<open>memset(&addr, 0, sizeof(addr))\<close> and \<open>sizeof(addr)\<close>.\<close>

definition zero_addr :: sockaddr_in where
  "zero_addr = \<lparr>sin_family = 0, sin_port = 0, sin_addr = 0\<rparr>"

definition sizeof_sockaddr_in :: "32 word" where
  "sizeof_sockaddr_in = 16"

text \<open>\<open>htons\<close> on a little-endian machine, after the conversion of \<open>int\<close> to \<open>uint16_t\<close>.\<close>

definition swap16 :: "16 word \<Rightarrow> 16 word" where
  "swap16 x = push_bit 8 x OR drop_bit 8 x"

definition htons :: "int \<Rightarrow> 16 word" where
  "htons port = swap16 (word_of_int port)"

definition InetAddress_default :: InetAddress where
  "InetAddress_default = \<lparr>addr = zero_addr, addr_sz = sizeof_sockaddr_in\<rparr>"

definition InetAddress_ip :: "'w os \<Rightarrow> string \<Rightarrow> int \<Rightarrow> InetAddress" where
  "InetAddress_ip os ip port =
     \<lparr>addr = zero_addr\<lparr>sin_family := AF_INET, sin_addr := os_inet_addr os ip, sin_port := htons port\<rparr>,
      addr_sz = sizeof_sockaddr_in\<rparr>"

section \<open>The heap of addresses\<close>

record 'w inet_heap = "'w machine" +
  inets :: "InetAddress store"
  next_inet :: nat

definition read_inet :: "ptr \<Rightarrow> ('w, 'z) inet_heap_scheme \<Rightarrow> InetAddress res" where
  "read_inet p s = deref (inets s) p"

definition update_inet :: "ptr \<Rightarrow> (InetAddress \<Rightarrow> InetAddress) \<Rightarrow> ('w, 'z) inet_heap_scheme \<Rightarrow>
    ('w, 'z) inet_heap_scheme res" where
  "update_inet p f s =
     andThen (read_inet p s) (\<lambda>x. Ok (s\<lparr>inets := (inets s)(ptr_addr p \<mapsto> f x)\<rparr>))"

definition new_inet :: "InetAddress \<Rightarrow> ('w, 'z) inet_heap_scheme \<Rightarrow> ptr \<times> ('w, 'z) inet_heap_scheme" where
  "new_inet x s =
     (Ptr (next_inet s), s\<lparr>inets := (inets s)(next_inet s \<mapsto> x), next_inet := Suc (next_inet s)\<rparr>)"

text \<open>\<open>delete\<close> of a null pointer does nothing; the destructor's body is empty.\<close>

definition delete_inet :: "ptr \<Rightarrow> ('w, 'z) inet_heap_scheme \<Rightarrow> ('w, 'z) inet_heap_scheme res" where
  "delete_inet p s =
     (if p = Null then Ok s
      else andThen (read_inet p s) (\<lambda>x. Ok (s\<lparr>inets := (inets s)(ptr_addr p := None)\<rparr>)))"

definition inet_wf :: "('w, 'z) inet_heap_scheme \<Rightarrow> bool" where
  "inet_wf s \<longleftrightarrow> (\<forall>a \<ge> next_inet s. inets s a = None)"

lemmas inet_store_defs =
  read_inet_def update_inet_def new_inet_def delete_inet_def inet_wf_def deref_def

interpretation inet: object_store read_inet update_inet new_inet delete_inet inet_wf
  by unfold_locales
    (auto simp: inet_store_defs holds_iff andThen_eq_Ok andThen_eq_Fault
      split: ptr.splits option.splits if_splits)

lemma inet_frame [frame_simps, simp]:
  "inets (log e s) = inets s" "next_inet (log e s) = next_inet s"
  "inets (snd (sys_socket os s)) = inets s" "next_inet (snd (sys_socket os s)) = next_inet s"
  "inets (snd (sys_bind os fd a sz s)) = inets s" "next_inet (snd (sys_bind os fd a sz s)) = next_inet s"
  "inets (snd (sys_listen os fd n s)) = inets s" "next_inet (snd (sys_listen os fd n s)) = next_inet s"
  "inets (snd (sys_accept os fd s)) = inets s" "next_inet (snd (sys_accept os fd s)) = next_inet s"
  "inets (sys_setfl_nonblock os fd s) = inets s" "next_inet (sys_setfl_nonblock os fd s) = next_inet s"
  "inets (sys_epoll_ctl os ep op fd ev s) = inets s" "next_inet (sys_epoll_ctl os ep op fd ev s) = next_inet s"
  "inets (snd (sys_epoll_create os s)) = inets s" "next_inet (snd (sys_epoll_create os s)) = next_inet s"
  "inets (snd (sys_epoll_wait os ep cap t s)) = inets s" "next_inet (snd (sys_epoll_wait os ep cap t s)) = next_inet s"
  "inets (snd (sys_recv os fd len s)) = inets s" "next_inet (snd (sys_recv os fd len s)) = next_inet s"
  "inets (sys_write os fd cs s) = inets s" "next_inet (sys_write os fd cs s) = next_inet s"
  "inets (sys_close os fd s) = inets s" "next_inet (sys_close os fd s) = next_inet s"
  by (simp_all add: sys_defs log_def Let_def split: prod.splits)

section \<open>Byte order\<close>

lemma swap16_swap16: "swap16 (swap16 x) = x"
  by (rule bit_word_eqI)
    (auto simp: swap16_def bit_or_iff bit_push_bit_iff bit_drop_bit_eq)

text \<open>A port survives the trip through network byte order exactly when it fits into 16 bits.\<close>

lemma htons_roundtrip:
  "uint (swap16 (htons port)) = port \<longleftrightarrow> 0 \<le> port \<and> port < 65536"
proof -
  have "uint (swap16 (htons port)) = port mod 65536"
    by (simp add: htons_def swap16_swap16 uint_word_of_int)
  then show ?thesis by (metis mod_pos_pos_trivial pos_mod_bound pos_mod_sign zero_less_numeral)
qed

lemma InetAddress_ip_simps [simp]:
  "sin_family (addr (InetAddress_ip os ip port)) = AF_INET"
  "sin_addr (addr (InetAddress_ip os ip port)) = os_inet_addr os ip"
  "sin_port (addr (InetAddress_ip os ip port)) = htons port"
  "addr_sz (InetAddress_ip os ip port) = 16"
  by (simp_all add: InetAddress_ip_def sizeof_sockaddr_in_def)

end
