(* ===== verification/Connection.thy ===== *)
theory Connection
  imports InetAddress
begin

text \<open>
  \<open>inc/Connection.hpp\<close>, \<open>src/Connection.cpp\<close>: the connection object, the heap it lives in, and
  one definition per method. A method takes the \<open>this\<close> pointer and the program's state; a pointer
  to a deleted object makes it fault. The two event structures and the bytes of both buffers have
  no initialiser in the class, so they start out undefined (\<open>None\<close>).

  The callbacks are \<open>std::function<void()>\<close> objects. The program only ever stores the results of
  \<open>std::bind(f, conn, epoll)\<close> for its three handler functions, so a callback is the handler's name
  with the bound connection; the bound \<open>Epoll*\<close> is the program's only one. What calling such an
  object does is the parameter \<open>run\<close> of \<open>exeRecvCallback\<close> and \<open>exeSendCallback\<close>.
\<close>

definition RECV_BUFFER_LENGTH :: nat where "RECV_BUFFER_LENGTH = 2048"
definition SEND_BUFFER_LENGTH :: nat where "SEND_BUFFER_LENGTH = 2048"

datatype handler = AcceptCallback | RecvCallback | SendCallback

datatype callback = Bound (bound_fun: handler) (bound_conn: ptr)

record conn_obj =
  conn_fd :: int
  inEpoll :: bool
  inetAddr :: ptr
  event :: "epoll_event option"
  revent :: "epoll_event option"
  rbuffer :: "cell list"
  rlen :: int
  wbuffer :: "cell list"
  wlen :: int
  recvCb :: "callback option"
  sendCb :: "callback option"

record 'w conn_heap = "'w inet_heap" +
  conns :: "conn_obj store"
  next_conn :: nat

section \<open>The heap of connections\<close>

definition read_conn :: "ptr \<Rightarrow> ('w, 'z) conn_heap_scheme \<Rightarrow> conn_obj res" where
  "read_conn p s = deref (conns s) p"

definition update_conn :: "ptr \<Rightarrow> (conn_obj \<Rightarrow> conn_obj) \<Rightarrow> ('w, 'z) conn_heap_scheme \<Rightarrow>
    ('w, 'z) conn_heap_scheme res" where
  "update_conn p f s =
     andThen (read_conn p s) (\<lambda>c. Ok (s\<lparr>conns := (conns s)(ptr_addr p \<mapsto> f c)\<rparr>))"

definition new_conn :: "conn_obj \<Rightarrow> ('w, 'z) conn_heap_scheme \<Rightarrow> ptr \<times> ('w, 'z) conn_heap_scheme" where
  "new_conn c s =
     (Ptr (next_conn s), s\<lparr>conns := (conns s)(next_conn s \<mapsto> c), next_conn := Suc (next_conn s)\<rparr>)"

definition free_conn :: "ptr \<Rightarrow> ('w, 'z) conn_heap_scheme \<Rightarrow> ('w, 'z) conn_heap_scheme res" where
  "free_conn p s =
     (if p = Null then Ok s
      else andThen (read_conn p s) (\<lambda>c. Ok (s\<lparr>conns := (conns s)(ptr_addr p := None)\<rparr>)))"

definition conn_wf :: "('w, 'z) conn_heap_scheme \<Rightarrow> bool" where
  "conn_wf s \<longleftrightarrow> (\<forall>a \<ge> next_conn s. conns s a = None)"

lemmas conn_store_defs =
  read_conn_def update_conn_def new_conn_def free_conn_def conn_wf_def deref_def

interpretation conn: object_store read_conn update_conn new_conn free_conn conn_wf
  by unfold_locales
    (auto simp: conn_store_defs holds_iff andThen_eq_Ok andThen_eq_Fault
      split: ptr.splits option.splits if_splits)

section \<open>Constructors and destructor\<close>

text \<open>\<open>Connection()\<close> with the class's default member initialisers; \<open>Connection(ip, port)\<close> does the
  same and ignores its arguments.\<close>

definition Connection_default :: conn_obj where
  "Connection_default =
     \<lparr>conn_fd = -1, inEpoll = False, inetAddr = Null, event = None, revent = None,
      rbuffer = replicate RECV_BUFFER_LENGTH None, rlen = 0,
      wbuffer = replicate SEND_BUFFER_LENGTH None, wlen = 0, recvCb = None, sendCb = None\<rparr>"

definition Connection_fd :: "int \<Rightarrow> ptr \<Rightarrow> conn_obj" where
  "Connection_fd f a = Connection_default\<lparr>conn_fd := f, inetAddr := a\<rparr>"

definition Connection_ip :: "string \<Rightarrow> int \<Rightarrow> conn_obj" where
  "Connection_ip ip port = Connection_default"

text \<open>\<open>delete conn\<close>: the destructor deletes the address and closes the descriptor, then the object
  is gone.\<close>

definition delete_conn :: "'w os \<Rightarrow> ptr \<Rightarrow> ('w, 'z) conn_heap_scheme \<Rightarrow> ('w, 'z) conn_heap_scheme res" where
  "delete_conn os p s =
     (if p = Null then Ok s
      else andThen (read_conn p s) (\<lambda>c.
           andThen (if inetAddr c \<noteq> Null then delete_inet (inetAddr c) s else Ok s) (\<lambda>s.
           free_conn p (sys_close os (conn_fd c) s))))"

section \<open>Methods\<close>

definition getFd :: "ptr \<Rightarrow> ('w, 'z) conn_heap_scheme \<Rightarrow> int res" where
  "getFd p s = andThen (read_conn p s) (\<lambda>c. Ok (conn_fd c))"

definition getInEpoll :: "ptr \<Rightarrow> ('w, 'z) conn_heap_scheme \<Rightarrow> bool res" where
  "getInEpoll p s = andThen (read_conn p s) (\<lambda>c. Ok (inEpoll c))"

definition getInetAddress :: "ptr \<Rightarrow> ('w, 'z) conn_heap_scheme \<Rightarrow> ptr res" where
  "getInetAddress p s = andThen (read_conn p s) (\<lambda>c. Ok (inetAddr c))"

definition setInEpoll :: "ptr \<Rightarrow> ('w, 'z) conn_heap_scheme \<Rightarrow> ('w, 'z) conn_heap_scheme res" where
  "setInEpoll p s = update_conn p (\<lambda>c. c\<lparr>inEpoll := True\<rparr>) s"

definition setNonBlocking :: "'w os \<Rightarrow> ptr \<Rightarrow> ('w, 'z) conn_heap_scheme \<Rightarrow> ('w, 'z) conn_heap_scheme res" where
  "setNonBlocking os p s = andThen (getFd p s) (\<lambda>f. Ok (sys_setfl_nonblock os f s))"

definition setEvent :: "ptr \<Rightarrow> 32 word \<Rightarrow> ('w, 'z) conn_heap_scheme \<Rightarrow> ('w, 'z) conn_heap_scheme res" where
  "setEvent p flags s =
     update_conn p (\<lambda>c. c\<lparr>event := Some \<lparr>events = flags, data_fd = conn_fd c\<rparr>\<rparr>) s"

definition setREvent :: "ptr \<Rightarrow> 32 word \<Rightarrow> ('w, 'z) conn_heap_scheme \<Rightarrow> ('w, 'z) conn_heap_scheme res" where
  "setREvent p flags s =
     update_conn p (\<lambda>c. c\<lparr>revent := Some \<lparr>events = flags, data_fd = conn_fd c\<rparr>\<rparr>) s"

text \<open>The getters return pointers to the structures; reading a structure that was never set is an
  indeterminate read.\<close>

definition initialised :: "'a option \<Rightarrow> 'a res" where
  "initialised x = (case x of None \<Rightarrow> Fault Indeterminate | Some e \<Rightarrow> Ok e)"

definition getEvent :: "ptr \<Rightarrow> ('w, 'z) conn_heap_scheme \<Rightarrow> epoll_event res" where
  "getEvent p s = andThen (read_conn p s) (\<lambda>c. initialised (event c))"

definition getREvent :: "ptr \<Rightarrow> ('w, 'z) conn_heap_scheme \<Rightarrow> epoll_event res" where
  "getREvent p s = andThen (read_conn p s) (\<lambda>c. initialised (revent c))"

definition setRecvCallback :: "ptr \<Rightarrow> callback \<Rightarrow> ('w, 'z) conn_heap_scheme \<Rightarrow> ('w, 'z) conn_heap_scheme res" where
  "setRecvCallback p f s = update_conn p (\<lambda>c. c\<lparr>recvCb := Some f\<rparr>) s"

definition setSendCallback :: "ptr \<Rightarrow> callback \<Rightarrow> ('w, 'z) conn_heap_scheme \<Rightarrow> ('w, 'z) conn_heap_scheme res" where
  "setSendCallback p f s = update_conn p (\<lambda>c. c\<lparr>sendCb := Some f\<rparr>) s"

definition exeRecvCallback :: "(callback \<Rightarrow> ('w, 'z) conn_heap_scheme \<Rightarrow> ('w, 'z) conn_heap_scheme res) \<Rightarrow>
    ptr \<Rightarrow> ('w, 'z) conn_heap_scheme \<Rightarrow> ('w, 'z) conn_heap_scheme res" where
  "exeRecvCallback run p s =
     andThen (read_conn p s) (\<lambda>c. case recvCb c of None \<Rightarrow> Fault BadFunctionCall | Some cb \<Rightarrow> run cb s)"

definition exeSendCallback :: "(callback \<Rightarrow> ('w, 'z) conn_heap_scheme \<Rightarrow> ('w, 'z) conn_heap_scheme res) \<Rightarrow>
    ptr \<Rightarrow> ('w, 'z) conn_heap_scheme \<Rightarrow> ('w, 'z) conn_heap_scheme res" where
  "exeSendCallback run p s =
     andThen (read_conn p s) (\<lambda>c. case sendCb c of None \<Rightarrow> Fault BadFunctionCall | Some cb \<Rightarrow> run cb s)"

definition wBufferClear :: "ptr \<Rightarrow> ('w, 'z) conn_heap_scheme \<Rightarrow> ('w, 'z) conn_heap_scheme res" where
  "wBufferClear p s = update_conn p (\<lambda>c. c\<lparr>wbuffer := replicate SEND_BUFFER_LENGTH (Some 0)\<rparr>) s"

definition rBufferClear :: "ptr \<Rightarrow> ('w, 'z) conn_heap_scheme \<Rightarrow> ('w, 'z) conn_heap_scheme res" where
  "rBufferClear p s = update_conn p (\<lambda>c. c\<lparr>rbuffer := replicate RECV_BUFFER_LENGTH (Some 0)\<rparr>) s"

text \<open>\<open>getwBuffer\<close> and \<open>getrBuffer\<close> return the arrays by address. The model returns the contents,
  and \<open>put_wBuffer\<close>, \<open>put_rBuffer\<close> are the stores the callers make through the address.\<close>

definition getwBuffer :: "ptr \<Rightarrow> ('w, 'z) conn_heap_scheme \<Rightarrow> cell list res" where
  "getwBuffer p s = andThen (read_conn p s) (\<lambda>c. Ok (wbuffer c))"

definition getrBuffer :: "ptr \<Rightarrow> ('w, 'z) conn_heap_scheme \<Rightarrow> cell list res" where
  "getrBuffer p s = andThen (read_conn p s) (\<lambda>c. Ok (rbuffer c))"

definition put_wBuffer :: "ptr \<Rightarrow> cell list \<Rightarrow> ('w, 'z) conn_heap_scheme \<Rightarrow> ('w, 'z) conn_heap_scheme res" where
  "put_wBuffer p buf s = update_conn p (\<lambda>c. c\<lparr>wbuffer := buf\<rparr>) s"

definition put_rBuffer :: "ptr \<Rightarrow> cell list \<Rightarrow> ('w, 'z) conn_heap_scheme \<Rightarrow> ('w, 'z) conn_heap_scheme res" where
  "put_rBuffer p buf s = update_conn p (\<lambda>c. c\<lparr>rbuffer := buf\<rparr>) s"

definition getCurWlen :: "ptr \<Rightarrow> ('w, 'z) conn_heap_scheme \<Rightarrow> int res" where
  "getCurWlen p s = andThen (read_conn p s) (\<lambda>c. Ok (wlen c))"

definition getCurRlen :: "ptr \<Rightarrow> ('w, 'z) conn_heap_scheme \<Rightarrow> int res" where
  "getCurRlen p s = andThen (read_conn p s) (\<lambda>c. Ok (rlen c))"

definition setRLen :: "ptr \<Rightarrow> int \<Rightarrow> ('w, 'z) conn_heap_scheme \<Rightarrow> ('w, 'z) conn_heap_scheme res" where
  "setRLen p n s = update_conn p (\<lambda>c. c\<lparr>rlen := n\<rparr>) s"

definition setWLen :: "ptr \<Rightarrow> int \<Rightarrow> ('w, 'z) conn_heap_scheme \<Rightarrow> ('w, 'z) conn_heap_scheme res" where
  "setWLen p n s = update_conn p (\<lambda>c. c\<lparr>wlen := n\<rparr>) s"

section \<open>Facts about the methods\<close>

text \<open>Symbolic execution: with \<open>conns s a = Some c\<close> in the context, these definitions evaluate any
  sequence of methods on \<open>Ptr a\<close>.\<close>

lemmas conn_methods =
  getFd_def getInEpoll_def getInetAddress_def setInEpoll_def setNonBlocking_def setEvent_def
  setREvent_def getEvent_def getREvent_def setRecvCallback_def setSendCallback_def
  exeRecvCallback_def exeSendCallback_def wBufferClear_def rBufferClear_def getwBuffer_def
  getrBuffer_def put_wBuffer_def put_rBuffer_def getCurWlen_def getCurRlen_def setRLen_def
  setWLen_def initialised_def

lemmas conn_exec = conn_methods read_conn_def update_conn_def

lemma conn_frame [frame_simps, simp]:
  "conns (log e s) = conns s" "next_conn (log e s) = next_conn s"
  "conns (snd (sys_socket os s)) = conns s" "next_conn (snd (sys_socket os s)) = next_conn s"
  "conns (snd (sys_bind os f ad sz s)) = conns s" "next_conn (snd (sys_bind os f ad sz s)) = next_conn s"
  "conns (snd (sys_listen os f n s)) = conns s" "next_conn (snd (sys_listen os f n s)) = next_conn s"
  "conns (snd (sys_accept os f s)) = conns s" "next_conn (snd (sys_accept os f s)) = next_conn s"
  "conns (sys_setfl_nonblock os f s) = conns s" "next_conn (sys_setfl_nonblock os f s) = next_conn s"
  "conns (sys_epoll_ctl os ep op f ev s) = conns s" "next_conn (sys_epoll_ctl os ep op f ev s) = next_conn s"
  "conns (snd (sys_epoll_create os s)) = conns s" "next_conn (snd (sys_epoll_create os s)) = next_conn s"
  "conns (snd (sys_epoll_wait os ep cap t s)) = conns s" "next_conn (snd (sys_epoll_wait os ep cap t s)) = next_conn s"
  "conns (snd (sys_recv os f len s)) = conns s" "next_conn (snd (sys_recv os f len s)) = next_conn s"
  "conns (sys_write os f cs s) = conns s" "next_conn (sys_write os f cs s) = next_conn s"
  "conns (sys_close os f s) = conns s" "next_conn (sys_close os f s) = next_conn s"
  by (simp_all add: sys_defs log_def Let_def split: prod.splits)

text \<open>A deleted connection is gone for good: every method called through the old pointer faults,
  and so does deleting it again.\<close>

lemma delete_conn_frees:
  assumes "delete_conn os p s = Ok s'" and "p \<noteq> Null"
  shows "read_conn p s' = Fault UseAfterFree"
  using assms by (auto simp: delete_conn_def andThen_eq_Ok free_conn_def conn_store_defs
      split: if_splits ptr.splits option.splits)

text \<open>Deleting a live connection: its address goes with it, its descriptor is closed once, and the
  other objects stay.\<close>

lemma delete_conn_live:
  assumes "conns s a = Some c" and "inetAddr c = Ptr b" and "inets s b = Some i"
  shows "delete_conn os (Ptr a) s =
     Ok ((sys_close os (conn_fd c) (s\<lparr>inets := (inets s)(b := None)\<rparr>))\<lparr>conns := (conns s)(a := None)\<rparr>)"
  using assms by (simp add: delete_conn_def free_conn_def read_conn_def delete_inet_def read_inet_def)

text \<open>Clearing the receive buffer leaves the receive length alone.\<close>

lemma rBufferClear_keeps_rlen:
  "rBufferClear p s = Ok s' \<Longrightarrow> getCurRlen p s' = getCurRlen p s"
  by (auto simp: conn_exec andThen_eq_Ok deref_eq_Ok)

end
