(* ===== verification/Util.thy ===== *)
theory Util
  imports Prelude
begin

text \<open>
  \<open>src/log/util.cpp\<close>: \<open>errif\<close> prints the message with \<open>perror\<close> and ends the process when the
  condition holds, and does nothing otherwise.
\<close>

definition errif :: "bool \<Rightarrow> string \<Rightarrow> unit res" where
  "errif condition msg = (if condition then Fault (ProcessExit msg) else Ok ())"

lemma errif_simps [simp]:
  "errif True msg = Fault (ProcessExit msg)"
  "errif False msg = Ok ()"
  by (simp_all add: errif_def)

lemma errif_Ok_iff [simp]: "errif c msg = Ok u \<longleftrightarrow> \<not> c"
  by (simp add: errif_def)

lemma errif_andThen:
  "andThen (errif c msg) k = (if c then Fault (ProcessExit msg) else k ())"
  by (simp add: errif_def)

end
