(* ===== verification/Socket.thy ===== *)
theory Socket
  imports Connection Util
begin

text \<open>
  \<open>inc/Socket.hpp\<close>, \<open>src/Socket.cpp\<close>: a \<open>Socket\<close> is a \<open>Connection\<close> without further members, so a
  \<open>Socket*\<close> is a pointer into the heap of connections. The constructors allocate the object, run
  the base class's constructor (\<open>Connection_default\<close>) and then their own body.
\<close>

definition MAX_LISTEN_NUM :: int where "MAX_LISTEN_NUM = 15"

definition Socket_bind :: "'w os \<Rightarrow> ptr \<Rightarrow> ('w, 'z) conn_heap_scheme \<Rightarrow> ('w, 'z) conn_heap_scheme res" where
  "Socket_bind os this s =
     andThen (read_conn this s) (\<lambda>c.
     andThen (read_inet (inetAddr c) s) (\<lambda>a.
       let (r, s) = sys_bind os (conn_fd c) (addr a) (addr_sz a) s
       in andThen (errif (r = -1) ''bind error!'') (\<lambda>_. Ok s)))"

definition Socket_ip :: "'w os \<Rightarrow> string \<Rightarrow> int \<Rightarrow> ('w, 'z) conn_heap_scheme \<Rightarrow>
    (ptr \<times> ('w, 'z) conn_heap_scheme) res" where
  "Socket_ip os ip port s =
     (let (this, s) = new_conn Connection_default s;
          (f, s) = sys_socket os s
      in andThen (update_conn this (\<lambda>c. c\<lparr>conn_fd := f\<rparr>) s) (\<lambda>s.
         andThen (errif (f = -1) ''socket create failed!'') (\<lambda>_.
           let (a, s) = new_inet (InetAddress_ip os ip port) s
           in andThen (update_conn this (\<lambda>c. c\<lparr>inetAddr := a\<rparr>) s) (\<lambda>s.
              andThen (Socket_bind os this s) (\<lambda>s. Ok (this, s))))))"

definition Socket_default :: "'w os \<Rightarrow> ('w, 'z) conn_heap_scheme \<Rightarrow>
    (ptr \<times> ('w, 'z) conn_heap_scheme) res" where
  "Socket_default os s =
     (let (this, s) = new_conn Connection_default s;
          (f, s) = sys_socket os s
      in andThen (update_conn this (\<lambda>c. c\<lparr>conn_fd := f\<rparr>) s) (\<lambda>s.
         andThen (errif (f = -1) ''socket create failed!'') (\<lambda>_.
           let (a, s) = new_inet (InetAddress_ip os ''127.0.0.1'' 8080) s
           in andThen (update_conn this (\<lambda>c. c\<lparr>inetAddr := a\<rparr>) s) (\<lambda>s.
              andThen (Socket_bind os this s) (\<lambda>s. Ok (this, s))))))"

text \<open>\<open>Socket(int _fd, InetAddress*)\<close> tests the member \<open>fd\<close>, before the parameter is stored.\<close>

definition Socket_fd :: "'w os \<Rightarrow> int \<Rightarrow> ptr \<Rightarrow> ('w, 'z) conn_heap_scheme \<Rightarrow>
    (ptr \<times> ('w, 'z) conn_heap_scheme) res" where
  "Socket_fd os f a s =
     (let (this, s) = new_conn Connection_default s
      in andThen (getFd this s) (\<lambda>member_fd.
         andThen (errif (member_fd = -1) ''in Socket: fd==-1!'') (\<lambda>_.
         andThen (update_conn this (\<lambda>c. c\<lparr>conn_fd := f\<rparr>) s) (\<lambda>s.
         andThen (update_conn this (\<lambda>c. c\<lparr>inetAddr := a\<rparr>) s) (\<lambda>s.
         andThen (Socket_bind os this s) (\<lambda>s. Ok (this, s)))))))"

definition Socket_listen :: "'w os \<Rightarrow> ptr \<Rightarrow> int \<Rightarrow> ('w, 'z) conn_heap_scheme \<Rightarrow> ('w, 'z) conn_heap_scheme res" where
  "Socket_listen os this n s =
     andThen (getFd this s) (\<lambda>f.
       let (r, s) = sys_listen os f n s
       in andThen (errif (r = -1) ''listen error!'') (\<lambda>_. Ok s))"

text \<open>\<open>accept\<close> wraps whatever \<open>::accept\<close> returned, \<open>-1\<close> included. The kernel fills in the address
  and its size only when the call succeeds.\<close>

definition Socket_accept :: "'w os \<Rightarrow> ptr \<Rightarrow> ('w, 'z) conn_heap_scheme \<Rightarrow>
    (ptr \<times> ('w, 'z) conn_heap_scheme) res" where
  "Socket_accept os this s =
     (let (a, s) = new_inet InetAddress_default s
      in andThen (getFd this s) (\<lambda>f.
           let ((clientfd, ad, sz), s) = sys_accept os f s
           in andThen (if clientfd = -1 then Ok s
                       else update_inet a (\<lambda>i. i\<lparr>addr := ad, addr_sz := sz\<rparr>) s) (\<lambda>s.
              Ok (new_conn (Connection_fd clientfd a) s))))"

text \<open>\<open>delete\<close> of a \<open>Socket*\<close>: the destructor of \<open>Socket\<close> does nothing of its own, that of the base
  class follows.\<close>

definition delete_socket :: "'w os \<Rightarrow> ptr \<Rightarrow> ('w, 'z) conn_heap_scheme \<Rightarrow> ('w, 'z) conn_heap_scheme res" where
  "delete_socket os p s = delete_conn os p s"

section \<open>Facts\<close>

lemma more_frame [frame_simps]:
  "conn_heap.more (log e s) = conn_heap.more s"
  "conn_heap.more (snd (sys_accept os f s)) = conn_heap.more s"
  "conn_heap.more (snd (sys_socket os s)) = conn_heap.more s"
  by (simp_all add: sys_defs log_def Let_def split: prod.splits)

lemmas socket_defs =
  Socket_bind_def Socket_ip_def Socket_default_def Socket_fd_def Socket_listen_def Socket_accept_def

text \<open>The default constructor is the two-argument one at the fixed endpoint.\<close>

lemma Socket_default_eq: "Socket_default os s = Socket_ip os ''127.0.0.1'' 8080 s"
  by (simp add: Socket_default_def Socket_ip_def)

text \<open>
  What a successful construction leaves behind: a new connection that owns a new address, bound to
  the descriptor \<open>socket\<close> returned; no other object changes.
\<close>

lemma Socket_ip_Ok:
  assumes "Socket_ip os ip port s = Ok (p, s')"
  shows "p = Ptr (next_conn s) \<and>
    (\<exists>f. f \<noteq> -1 \<and> f = fst (os_socket os (kernel s)) \<and>
      conns s' = (conns s)(next_conn s \<mapsto> Connection_fd f (Ptr (next_inet s))) \<and>
      kernel s' = snd (os_bind os f (addr (InetAddress_ip os ip port)) 16 (snd (os_socket os (kernel s)))) \<and>
      trace s' = trace s @ [SysSocket f, SysBind f (addr (InetAddress_ip os ip port)) 16]) \<and>
    next_conn s' = Suc (next_conn s) \<and>
    inets s' = (inets s)(next_inet s \<mapsto> InetAddress_ip os ip port) \<and>
    next_inet s' = Suc (next_inet s) \<and> conn_heap.more s' = conn_heap.more s"
  using assms
  by (auto simp: Socket_ip_def Socket_bind_def new_conn_def new_inet_def update_conn_def read_conn_def
      read_inet_def sys_defs log_def errif_andThen andThen_eq_Ok Connection_fd_def Let_def
      split: prod.splits if_splits)

text \<open>An accepted client, as the code after \<open>accept\<close> finds it: always a fresh object, never null.\<close>

lemma Socket_accept_Ok:
  assumes "conns s a = Some c"
  shows "\<exists>r i s1. Socket_accept os (Ptr a) s = Ok (Ptr (next_conn s), s1) \<and>
    r = fst (fst (os_accept os (conn_fd c) (kernel s))) \<and>
    kernel s1 = snd (os_accept os (conn_fd c) (kernel s)) \<and>
    trace s1 = trace s @ [SysAccept (conn_fd c) r] \<and>
    conns s1 = (conns s)(next_conn s \<mapsto> Connection_fd r (Ptr (next_inet s))) \<and>
    next_conn s1 = Suc (next_conn s) \<and>
    inets s1 = (inets s)(next_inet s \<mapsto> i) \<and> next_inet s1 = Suc (next_inet s) \<and>
    (r = -1 \<longrightarrow> i = InetAddress_default) \<and> conn_heap.more s1 = conn_heap.more s"
  using assms
  by (simp add: Socket_accept_def new_inet_def new_conn_def getFd_def read_conn_def update_inet_def
      read_inet_def sys_accept_def log_def Let_def split: prod.splits) auto

end
