(* ===== verification/Epoll.thy ===== *)
theory Epoll
  imports Socket
begin

text \<open>
  \<open>inc/Epoll.hpp\<close>, \<open>src/Epoll.cpp\<close>: the registry \<open>connMap\<close> from descriptors to connections, the
  registration changes and the wait for events. The program has one epoll object, so its members
  are fields of the program's state (record \<open>reactor\<close>, the last extension of the state).
\<close>

definition MAX_EPOLL_CONN :: nat where "MAX_EPOLL_CONN = 16384"

datatype EpollAction = ACTION_UPDATE | ACTION_DELETE

record 'w reactor = "'w conn_heap" +
  epfd :: int
  connMap :: "int \<rightharpoonup> ptr"

definition Epoll_ctor :: "'w os \<Rightarrow> 'w reactor \<Rightarrow> 'w reactor res" where
  "Epoll_ctor os s =
     (let (r, s) = sys_epoll_create os s
      in andThen (errif (r = -1) ''epoll create failed!'') (\<lambda>_.
           Ok (s\<lparr>epfd := r, connMap := Map.empty\<rparr>)))"

definition Epoll_dtor :: "'w os \<Rightarrow> 'w reactor \<Rightarrow> 'w reactor" where
  "Epoll_dtor os s = sys_close os (epfd s) s"

definition updateConnection :: "'w os \<Rightarrow> ptr \<Rightarrow> EpollAction \<Rightarrow> 'w reactor \<Rightarrow> 'w reactor res" where
  "updateConnection os conn act s =
     andThen (getInEpoll conn s) (\<lambda>in_epoll.
     andThen (getFd conn s) (\<lambda>f.
       if act = ACTION_UPDATE then
         if in_epoll then
           andThen (getEvent conn s) (\<lambda>e.
             Ok (sys_epoll_ctl os (epfd s) EPOLL_CTL_MOD f (Some e) s))
         else
           andThen (getEvent conn s) (\<lambda>e.
           andThen (setInEpoll conn (sys_epoll_ctl os (epfd s) EPOLL_CTL_ADD f (Some e) s)) (\<lambda>s.
             Ok (s\<lparr>connMap := (connMap s)(f \<mapsto> conn)\<rparr>)))
       else if act = ACTION_DELETE \<and> in_epoll then
         delete_conn os conn
           (sys_epoll_ctl os (epfd s) EPOLL_CTL_DEL f None (s\<lparr>connMap := (connMap s)(f \<mapsto> Null)\<rparr>))
       else Ok s))"

text \<open>\<open>connMap[fd]\<close>: a missing key is inserted with the null pointer.\<close>

definition connMap_at :: "int \<Rightarrow> 'w reactor \<Rightarrow> ptr \<times> 'w reactor" where
  "connMap_at f s = (case connMap s f of Some p \<Rightarrow> (p, s)
     | None \<Rightarrow> (Null, s\<lparr>connMap := (connMap s)(f \<mapsto> Null)\<rparr>))"

fun wait_loop :: "epoll_event list \<Rightarrow> ptr list \<Rightarrow> 'w reactor \<Rightarrow> (ptr list \<times> 'w reactor) res" where
  "wait_loop [] res s = Ok (res, s)"
| "wait_loop (e # es) res s =
     (let (c, s) = connMap_at (data_fd e) s
      in andThen (setREvent c (events e) s) (\<lambda>s. wait_loop es (res @ [c]) s))"

text \<open>\<open>wait\<close>: the loop runs over the first \<open>nready\<close> entries of the array, none if the call failed;
  an entry the kernel did not fill in would be an indeterminate read.\<close>

definition wait :: "'w os \<Rightarrow> int \<Rightarrow> 'w reactor \<Rightarrow> (ptr list \<times> 'w reactor) res" where
  "wait os timeout s =
     (let ((nready, evs), s) = sys_epoll_wait os (epfd s) MAX_EPOLL_CONN timeout s
      in if int (length evs) < nready then Fault Indeterminate
         else wait_loop (take (nat nready) evs) [] s)"

definition Epoll_setRecvCallback :: "ptr \<Rightarrow> handler \<Rightarrow> 'w reactor \<Rightarrow> 'w reactor res" where
  "Epoll_setRecvCallback conn f s = setRecvCallback conn (Bound f conn) s"

definition Epoll_setSendCallback :: "ptr \<Rightarrow> handler \<Rightarrow> 'w reactor \<Rightarrow> 'w reactor res" where
  "Epoll_setSendCallback conn f s = setSendCallback conn (Bound f conn) s"

section \<open>Facts\<close>

lemma reactor_more:
  assumes "conn_heap.more s' = conn_heap.more s"
  shows "epfd s' = epfd s" and "connMap s' = connMap s"
  using assms by (cases s, cases s', simp)+

lemma epoll_frame [frame_simps, simp]:
  "epfd (log e s) = epfd s" "connMap (log e s) = connMap s"
  "epfd (snd (sys_accept os f s)) = epfd s" "connMap (snd (sys_accept os f s)) = connMap s"
  "epfd (sys_setfl_nonblock os f s) = epfd s" "connMap (sys_setfl_nonblock os f s) = connMap s"
  "epfd (sys_epoll_ctl os ep op f ev s) = epfd s" "connMap (sys_epoll_ctl os ep op f ev s) = connMap s"
  "epfd (snd (sys_epoll_wait os ep cap t s)) = epfd s" "connMap (snd (sys_epoll_wait os ep cap t s)) = connMap s"
  "epfd (snd (sys_recv os f len s)) = epfd s" "connMap (snd (sys_recv os f len s)) = connMap s"
  "epfd (sys_write os f cs s) = epfd s" "connMap (sys_write os f cs s) = connMap s"
  "epfd (sys_close os f s) = epfd s" "connMap (sys_close os f s) = connMap s"
  by (simp_all add: sys_defs log_def Let_def split: prod.splits)

lemmas epoll_callbacks = Epoll_setRecvCallback_def Epoll_setSendCallback_def

text \<open>The branches of \<open>updateConnection\<close> on a live connection.\<close>

lemma update_mod:
  assumes "conns s a = Some c" and "inEpoll c" and "event c = Some e"
  shows "updateConnection os (Ptr a) ACTION_UPDATE s =
    Ok (sys_epoll_ctl os (epfd s) EPOLL_CTL_MOD (conn_fd c) (Some e) s)"
  using assms by (simp add: updateConnection_def conn_exec)

lemma update_add:
  assumes "conns s a = Some c" and "\<not> inEpoll c" and "event c = Some e"
  shows "updateConnection os (Ptr a) ACTION_UPDATE s =
    Ok ((sys_epoll_ctl os (epfd s) EPOLL_CTL_ADD (conn_fd c) (Some e) s)
        \<lparr>conns := (conns s)(a \<mapsto> c\<lparr>inEpoll := True\<rparr>), connMap := (connMap s)(conn_fd c \<mapsto> Ptr a)\<rparr>)"
  using assms by (simp add: updateConnection_def conn_exec)

lemma update_delete:
  assumes "conns s a = Some c" and "inEpoll c"
  shows "updateConnection os (Ptr a) ACTION_DELETE s =
    delete_conn os (Ptr a)
      (sys_epoll_ctl os (epfd s) EPOLL_CTL_DEL (conn_fd c) None
         (s\<lparr>connMap := (connMap s)(conn_fd c \<mapsto> Null)\<rparr>))"
  using assms by (simp add: updateConnection_def conn_exec)

lemma update_delete_unregistered:
  assumes "conns s a = Some c" and "\<not> inEpoll c"
  shows "updateConnection os (Ptr a) ACTION_DELETE s = Ok s"
  using assms by (simp add: updateConnection_def conn_exec)

end
