(* ===== verification/Drain.thy ===== *)
theory Drain
  imports Os
begin

text \<open>
  The receive loop the program contains three times (\<open>recvCallback\<close> in \<open>src/Server.cpp\<close>, \<open>main\<close> in
  \<open>apps/server.cpp\<close>, \<open>main\<close> in \<open>apps/client.cpp\<close>): read into the rest of a fixed array until the
  stream ends or would block, adding what \<open>recv\<close> returns to the fill level. The locale
  \<open>drain_loop\<close> states what the three have in common over abstract accessors; each copy is its own
  definition in its component's theory, which interprets the locale.
\<close>

section \<open>What the peer sends\<close>

text \<open>\<open>delivers os f cap off chunks w\<close>: from the kernel state \<open>w\<close> on, the calls of \<open>recv\<close> on \<open>f\<close> for
  the rest of an array of size \<open>cap\<close> filled up to \<open>off\<close> return the chunks in turn, and then end of
  stream or would-block.\<close>

fun delivers :: "'w os \<Rightarrow> int \<Rightarrow> nat \<Rightarrow> nat \<Rightarrow> byte list list \<Rightarrow> 'w \<Rightarrow> bool" where
  "delivers os f cap off [] w =
     (let ((n, bs), w') = os_recv os f (cap - off) w
      in bs = [] \<and> (n = 0 \<or> n < 0 \<and> would_block (os_errno os w')))"
| "delivers os f cap off (c # cs) w =
     (let ((n, bs), w') = os_recv os f (cap - off) w
      in bs = c \<and> c \<noteq> [] \<and> n = int (length c) \<and> off + length c \<le> cap \<and>
         delivers os f cap (off + length c) cs w')"

text \<open>The same with hard errors: \<open>replies os f cap off rs w\<close> says that the calls are answered by
  \<open>rs\<close>, each a chunk or a failure that is not "would block", and then end of stream or
  would-block. A failure takes one off the fill level, which is what the program does; from an empty
  array it is the last reply that matters.\<close>

datatype reply = Got "byte list" | Failed

fun replies :: "'w os \<Rightarrow> int \<Rightarrow> nat \<Rightarrow> nat \<Rightarrow> reply list \<Rightarrow> 'w \<Rightarrow> bool" where
  "replies os f cap off [] w =
     (let ((n, bs), w') = os_recv os f (cap - off) w
      in bs = [] \<and> (n = 0 \<or> n < 0 \<and> would_block (os_errno os w')))"
| "replies os f cap off (Got c # rs) w =
     (let ((n, bs), w') = os_recv os f (cap - off) w
      in bs = c \<and> c \<noteq> [] \<and> n = int (length c) \<and> off + length c \<le> cap \<and>
         replies os f cap (off + length c) rs w')"
| "replies os f cap off (Failed # rs) w =
     (let ((n, bs), w') = os_recv os f (cap - off) w
      in bs = [] \<and> n = -1 \<and> \<not> would_block (os_errno os w') \<and>
         (off = 0 \<or> replies os f cap (off - 1) rs w'))"

lemma delivers_replies: "delivers os f cap off cs w = replies os f cap off (map Got cs) w"
  by (induction cs arbitrary: off w) (simp_all add: case_prod_unfold)

text \<open>What the replies leave in an array \<open>b\<close> filled up to \<open>off\<close>: a failure gives up the last byte, and
  fails to on an empty array.\<close>

fun played :: "nat \<Rightarrow> cell list \<Rightarrow> reply list \<Rightarrow> (nat \<times> cell list) res" where
  "played off b [] = Ok (off, b)"
| "played off b (Got c # rs) =
     played (off + length c) (take off b @ map Some c @ drop (off + length c) b) rs"
| "played off b (Failed # rs) = (case off of 0 \<Rightarrow> Fault OutOfBounds | Suc k \<Rightarrow> played k b rs)"

lemma played_append:
  "played off b (rs @ qs) = andThen (played off b rs) (\<lambda>(k, b). played k b qs)"
  by (induction off b rs rule: played.induct) (simp_all split: nat.splits)

lemma played_chunks:
  "off + length (concat cs) \<le> length b \<Longrightarrow> played off b (map Got cs) =
     Ok (off + length (concat cs), take off b @ map Some (concat cs) @ drop (off + length (concat cs)) b)"
proof (induction cs arbitrary: off b)
  case (Cons c cs)
  let ?b = "take off b @ map Some c @ drop (off + length c) b"
  have "length (take off b @ map Some c) = off + length c" using Cons.prems by simp
  then have "take (off + length c) ?b = take off b @ map Some c"
    "drop (off + length c + m) ?b = drop (off + length c + m) b" for m
    unfolding append_assoc [symmetric] by (simp_all add: add.commute)
  then show ?case using Cons by (simp add: add.assoc)
qed simp

lemma played_returns: "played off b rs \<noteq> None"
  by (induction off b rs rule: played.induct) (simp_all split: nat.splits)

lemma played_fault: "played off b rs = Fault e \<Longrightarrow> e = OutOfBounds"
  by (induction off b rs rule: played.induct) (auto split: nat.splits)

lemma played_defined: "played off b rs = Ok (k, b') \<Longrightarrow> None \<notin> set b \<Longrightarrow> None \<notin> set b'"
  by (induction off b rs rule: played.induct) (auto dest: in_set_takeD in_set_dropD split: nat.splits)

lemma delivers_fits: "delivers os f cap off cs w \<Longrightarrow> off \<le> cap \<Longrightarrow> off + length (concat cs) \<le> cap"
proof (induction cs arbitrary: off w)
  case (Cons c cs)
  then have "off + length c \<le> cap" "delivers os f cap (off + length c) cs (snd (os_recv os f (cap - off) w))"
    by (simp_all add: case_prod_unfold Let_def)
  from Cons.IH [OF this(2,1)] show ?case by simp
qed simp

text \<open>What was left is read as a C string, or has no end.\<close>

lemma played_text_cases:
  assumes "None \<notin> set b"
  obtains "andThen (played off b rs) (\<lambda>(k, b). cstr b) = Fault OutOfBounds"
  | k b' str where "played off b rs = Ok (k, b')" "cstr b' = Ok str"
proof (cases "played off b rs")
  case None
  then show ?thesis using played_returns by blast
next
  case (Some r)
  show ?thesis
  proof (cases r)
    case (Inl e)
    then show ?thesis using Some played_fault that(1) by simp
  next
    case (Inr x)
    then obtain k b' where x: "played off b rs = Ok (k, b')" using Some by (cases x) simp
    have "None \<notin> set b'" by (rule played_defined [OF x assms])
    then consider str where "cstr b' = Ok str" | "cstr b' = Fault OutOfBounds"
      using cstr_fault cstr_returns by (metis not_None_eq obj_sumE)
    then show ?thesis using x that by cases simp_all
  qed
qed

text \<open>What a burst with these replies reads as, from an array of zeros.\<close>

definition burst_text :: "nat \<Rightarrow> reply list \<Rightarrow> byte list res" where
  "burst_text cap rs = andThen (played 0 (replicate cap (Some 0)) rs) (\<lambda>(k, b). cstr b)"

section \<open>The loop\<close>

definition drain_body ::
  "(nat \<Rightarrow> 's \<Rightarrow> (int \<times> byte list) \<times> 's) \<Rightarrow> ('s \<Rightarrow> int) \<Rightarrow> nat \<Rightarrow> ('s \<Rightarrow> int) \<Rightarrow> ('s \<Rightarrow> cell list) \<Rightarrow>
   (int \<Rightarrow> cell list \<Rightarrow> 's \<Rightarrow> 's) \<Rightarrow> ('s \<Rightarrow> 's res) \<Rightarrow> 's \<Rightarrow> 's res" where
  "drain_body recvf err cap len buf put again s =
     (if len s < 0 \<or> int cap < len s then Fault OutOfBounds
      else let ((n, bs), s1) = recvf (nat (int cap - len s)) s
           in andThen (store_at (buf s) (len s) bs) (\<lambda>b.
                if n = 0 \<or> n < 0 \<and> would_block (err s1) then Ok (put (len s) b s1)
                else again (put (len s + n) b s1)))"

text \<open>The loop without a program around it: the fill level, the array and the kernel's state. It is the
  reference the three copies are compared with.\<close>

partial_function (option) drain_ref :: "'w os \<Rightarrow> int \<Rightarrow> nat \<Rightarrow> int \<Rightarrow> cell list \<Rightarrow> 'w \<Rightarrow> (int \<times> cell list \<times> 'w) res" where
  "drain_ref os f cap n b w =
     (if n < 0 \<or> int cap < n then Fault OutOfBounds
      else let ((k, bs), w') = os_recv os f (nat (int cap - n)) w
           in andThen (store_at b n bs) (\<lambda>b'.
                if k = 0 \<or> k < 0 \<and> would_block (os_errno os w') then Ok (n, b', w')
                else drain_ref os f cap (n + k) b' w'))"

definition drained :: "'s res \<Rightarrow> ('s \<Rightarrow> int) \<Rightarrow> ('s \<Rightarrow> cell list) \<Rightarrow> ('s \<Rightarrow> 'w) \<Rightarrow> (int \<times> cell list \<times> 'w) res" where
  "drained m len buf kern = andThen m (\<lambda>s. Ok (len s, buf s, kern s))"

text \<open>What a run of the loop from fill level \<open>off\<close> on received: \<open>m\<close>, by the calls \<open>calls\<close>. The last call
  asked for all the room that was left, and got nothing: the stream had ended, or nothing more was
  there to read, or there was no room.\<close>

definition burst_read :: "'w os \<Rightarrow> int \<Rightarrow> nat \<Rightarrow> nat \<Rightarrow> byte list \<Rightarrow> syscall list \<Rightarrow> 'w \<Rightarrow> bool" where
  "burst_read os f cap off m calls w \<longleftrightarrow> only_recv f calls \<and> received_bytes calls = m \<and> off + length m \<le> cap \<and>
     (\<exists>ini r. calls = ini @ [SysRecv f (cap - (off + length m)) r []] \<and>
       (r = 0 \<or> r = -1 \<and> would_block (os_errno os w)))"

lemma burst_read_Cons:
  assumes "burst_read os f cap (off + length bs) m calls w"
  shows "burst_read os f cap off (bs @ m) (SysRecv f k n bs # calls) w"
proof -
  obtain ini r where "calls = ini @ [SysRecv f (cap - (off + length (bs @ m))) r []]" "r = 0 \<or> r = -1 \<and> would_block (os_errno os w)"
    using assms by (auto simp: burst_read_def add.assoc)
  then show ?thesis using assms
    by (auto simp: burst_read_def only_recv_def intro!: exI [of _ "SysRecv f k n bs # ini"])
qed

text \<open>\<open>left\<close> bounds, for every descriptor, what the peers still have to send: \<open>recv\<close> lowers the bound by
  what it returns.\<close>

definition recv_takes :: "'w os \<Rightarrow> int \<Rightarrow> ('w \<Rightarrow> int \<Rightarrow> nat) \<Rightarrow> bool" where
  "recv_takes os f left \<longleftrightarrow> (\<forall>k w n bs w'. os_recv os f k w = ((n, bs), w') \<longrightarrow>
     length bs + left w' f \<le> left w f \<and> (\<forall>g. g \<noteq> f \<longrightarrow> left w' g \<le> left w g))"

locale drain_loop =
  fixes os :: "'w os" and f :: int and cap :: nat
    and recvf :: "nat \<Rightarrow> 's \<Rightarrow> (int \<times> byte list) \<times> 's"
    and kern :: "'s \<Rightarrow> 'w"
    and len :: "'s \<Rightarrow> int" and buf :: "'s \<Rightarrow> cell list"
    and put :: "int \<Rightarrow> cell list \<Rightarrow> 's \<Rightarrow> 's"
    and live :: "'s \<Rightarrow> bool"
    and hist :: "'s \<Rightarrow> syscall list"
    and again :: "'s \<Rightarrow> 's res"
  assumes unfold_loop: "live s \<Longrightarrow>
      again s = drain_body recvf (\<lambda>s. os_errno os (kern s)) cap len buf put again s"
    and induct_loop: "again s = Some r \<Longrightarrow> live s \<Longrightarrow>
      (\<And>g s r. (\<And>s r. live s \<Longrightarrow> g s = Some r \<Longrightarrow> P s r) \<Longrightarrow> live s \<Longrightarrow>
         drain_body recvf (\<lambda>s. os_errno os (kern s)) cap len buf put g s = Some r \<Longrightarrow> P s r) \<Longrightarrow> P s r"
    and recvf_kern: "live s \<Longrightarrow> recvf k s = (ans, s1) \<Longrightarrow> os_recv os f k (kern s) = (ans, kern s1)"
    and recvf_live: "live s \<Longrightarrow> recvf k s = (ans, s1) \<Longrightarrow> live s1"
    and put_live: "live s \<Longrightarrow> length b = cap \<Longrightarrow> live (put n b s)"
    and len_put: "live s \<Longrightarrow> len (put n b s) = n"
    and buf_put: "live s \<Longrightarrow> buf (put n b s) = b"
    and kern_put: "kern (put n b s) = kern s"
    and buf_length: "live s \<Longrightarrow> length (buf s) = cap"
    and recvf_hist: "live s \<Longrightarrow> recvf k s = (ans, s1) \<Longrightarrow> hist s1 = hist s @ [SysRecv f k (fst ans) (snd ans)]"
    and hist_put: "hist (put n b s) = hist s"
begin

lemma put_recvf:
  assumes "live s" and "recvf k s = ((n, bs), s1)" and "store_at (buf s) (len s) bs = Ok b"
  shows "live (put m b s1)" and "len (put m b s1) = m" and "buf (put m b s1) = b"
    and "kern (put m b s1) = kern s1" and "length b = cap"
proof -
  have "length b = cap" using assms by (simp add: store_at_length buf_length)
  moreover have "live s1" using assms recvf_live by blast
  ultimately show "live (put m b s1)" "len (put m b s1) = m" "buf (put m b s1) = b"
    "kern (put m b s1) = kern s1" "length b = cap"
    by (simp_all add: put_live len_put buf_put kern_put)
qed

text \<open>How one turn of the loop can go: it leaves its array, it stops, or it goes round.\<close>

lemma body_cases:
  assumes body: "drain_body recvf (\<lambda>s. os_errno os (kern s)) cap len buf put g s = Some r"
  obtains (fault) "Some r = Fault OutOfBounds"
  | (stop) n bs s1 b where "recvf (nat (int cap - len s)) s = ((n, bs), s1)" "0 \<le> len s" "len s \<le> int cap"
      "store_at (buf s) (len s) bs = Ok b" "n = 0 \<or> n < 0 \<and> would_block (os_errno os (kern s1))"
      "Some r = Ok (put (len s) b s1)"
  | (go) n bs s1 b where "recvf (nat (int cap - len s)) s = ((n, bs), s1)" "0 \<le> len s" "len s \<le> int cap"
      "store_at (buf s) (len s) bs = Ok b" "n \<noteq> 0" "\<not> (n < 0 \<and> would_block (os_errno os (kern s1)))"
      "g (put (len s + n) b s1) = Some r"
proof (cases "0 \<le> len s \<and> len s \<le> int cap")
  case True
  obtain n bs s1 where rc: "recvf (nat (int cap - len s)) s = ((n, bs), s1)" by (metis surj_pair)
  consider (bad) "store_at (buf s) (len s) bs = Fault OutOfBounds" | (ok) b where "store_at (buf s) (len s) bs = Ok b"
    unfolding store_at_def by metis
  then show ?thesis
  proof cases
    case bad
    then show ?thesis using body rc True by (intro fault) (auto simp: drain_body_def)
  next
    case (ok b)
    then show ?thesis using body rc True
      by (cases "n = 0 \<or> n < 0 \<and> would_block (os_errno os (kern s1))")
        (auto simp: drain_body_def intro: stop [OF rc] go [OF rc])
  qed
qed (use body in \<open>auto simp: drain_body_def intro: fault\<close>)

text \<open>The proof rule of the loop: an invariant \<open>I\<close> for going round, a postcondition \<open>J\<close> for leaving;
  the only fault the loop can produce is leaving its array.\<close>

lemma loop_rule:
  assumes start: "live s" "I s"
    and stop: "\<And>s k n bs s1 b. live s \<Longrightarrow> I s \<Longrightarrow> recvf k s = ((n, bs), s1) \<Longrightarrow>
      0 \<le> len s \<Longrightarrow> len s \<le> int cap \<Longrightarrow> k = nat (int cap - len s) \<Longrightarrow>
      store_at (buf s) (len s) bs = Ok b \<Longrightarrow> n = 0 \<or> n < 0 \<and> would_block (os_errno os (kern s1)) \<Longrightarrow>
      J (put (len s) b s1)"
    and go: "\<And>s k n bs s1 b. live s \<Longrightarrow> I s \<Longrightarrow> recvf k s = ((n, bs), s1) \<Longrightarrow>
      0 \<le> len s \<Longrightarrow> len s \<le> int cap \<Longrightarrow> k = nat (int cap - len s) \<Longrightarrow>
      store_at (buf s) (len s) bs = Ok b \<Longrightarrow>
      n \<noteq> 0 \<Longrightarrow> \<not> (n < 0 \<and> would_block (os_errno os (kern s1))) \<Longrightarrow> I (put (len s + n) b s1)"
  shows "within {OutOfBounds} (\<lambda>s'. live s' \<and> J s') (again s)"
proof -
  have "I s \<longrightarrow> within {OutOfBounds} (\<lambda>s'. live s' \<and> J s') (Some r)" if "again s = Some r" for r
    using that start(1)
  proof (rule induct_loop [where P = "\<lambda>s r. I s \<longrightarrow> within {OutOfBounds} (\<lambda>s'. live s' \<and> J s') (Some r)"], intro impI)
    fix g s r
    assume IH: "\<And>s r. live s \<Longrightarrow> g s = Some r \<Longrightarrow> I s \<longrightarrow> within {OutOfBounds} (\<lambda>s'. live s' \<and> J s') (Some r)"
      and s: "live s" and I: "I s"
      and body: "drain_body recvf (\<lambda>s. os_errno os (kern s)) cap len buf put g s = Some r"
    from body show "within {OutOfBounds} (\<lambda>s'. live s' \<and> J s') (Some r)"
    proof (cases rule: body_cases)
      case fault
      then show ?thesis by simp
    next
      case (stop n bs s1 b)
      then show ?thesis using assms(3) [OF s I stop(1-3) refl stop(4,5)] put_recvf(1) [OF s stop(1,4)] by simp
    next
      case (go n bs s1 b)
      then show ?thesis using assms(4) [OF s I go(1-3) refl go(4-6)] IH [OF put_recvf(1) [OF s go(1,4)] go(7)] by simp
    qed
  qed
  then show ?thesis using start(2) by (cases "again s") auto
qed

text \<open>It makes no call but \<open>recv\<close>.\<close>

lemma loop_hist:
  assumes "live s"
  shows "within {OutOfBounds} (\<lambda>s'. live s' \<and> (\<exists>calls. hist s' = hist s @ calls \<and> only_recv f calls)) (again s)"
proof (rule loop_rule [where I = "\<lambda>s'. \<exists>calls. hist s' = hist s @ calls \<and> only_recv f calls", OF assms])
  show "\<exists>calls. hist s = hist s @ calls \<and> only_recv f calls" by (simp add: only_recv_def)
qed (fastforce simp: hist_put recvf_hist only_recv_def)+

text \<open>Every copy does what the reference does: it returns, faults or hangs with it, and on the same
  data.\<close>

lemma loop_to_ref:
  assumes "again s = Some r" and "live s"
  shows "drained (Some r) len buf kern = drain_ref os f cap (len s) (buf s) (kern s)"
  using assms
proof (rule induct_loop)
  fix g s r
  assume IH: "\<And>s r. live s \<Longrightarrow> g s = Some r \<Longrightarrow>
      drained (Some r) len buf kern = drain_ref os f cap (len s) (buf s) (kern s)"
    and s: "live s" and body: "drain_body recvf (\<lambda>s. os_errno os (kern s)) cap len buf put g s = Some r"
  obtain n bs s1 where rc: "recvf (nat (int cap - len s)) s = ((n, bs), s1)" by (metis surj_pair)
  note os = recvf_kern [OF s rc]
  show "drained (Some r) len buf kern = drain_ref os f cap (len s) (buf s) (kern s)"
  proof (cases rule: store_at_cases [of "buf s" "len s" bs])
    case 1
    then show ?thesis using body rc os
      by (subst drain_ref.simps) (auto simp: drain_body_def drained_def split: if_splits)
  next
    case (2 b)
    note after = put_recvf [OF s rc 2(1)]
    show ?thesis
    proof (cases "n = 0 \<or> n < 0 \<and> would_block (os_errno os (kern s1))")
      case True
      then show ?thesis using body rc os 2(1) after
        by (subst drain_ref.simps) (auto simp: drain_body_def drained_def split: if_splits)
    next
      case False
      then show ?thesis using body rc os 2(1) after IH [OF after(1), of "len s + n" r]
        by (subst drain_ref.simps) (auto simp: drain_body_def drained_def split: if_splits)
    qed
  qed
qed

lemma ref_to_loop:
  assumes "drain_ref os f cap n b w = Some r" and "live s" and "len s = n" and "buf s = b" and "kern s = w"
  shows "again s \<noteq> None"
proof -
  have "os' = os \<longrightarrow> f' = f \<longrightarrow> cap' = cap \<longrightarrow> (\<forall>s. live s \<longrightarrow> len s = n \<longrightarrow> buf s = b \<longrightarrow> kern s = w \<longrightarrow> again s \<noteq> None)"
    if "drain_ref os' f' cap' n b w = Some r" for os' f' cap' n b w r
  proof (rule drain_ref.raw_induct [where P = "\<lambda>os' f' cap' n b w r. os' = os \<longrightarrow> f' = f \<longrightarrow> cap' = cap \<longrightarrow>
      (\<forall>s. live s \<longrightarrow> len s = n \<longrightarrow> buf s = b \<longrightarrow> kern s = w \<longrightarrow> again s \<noteq> None)", OF _ that], intro impI allI, goal_cases)
    case (1 g os' f' cap' n b w r s)
    obtain k bs s1 where rc: "recvf (nat (int cap - len s)) s = ((k, bs), s1)" by (metis surj_pair)
    note os = recvf_kern [OF 1(6) rc]
    have IH: "again s2 \<noteq> None" if "g os f cap (len s2) (buf s2) (kern s2) = Some r'" "live s2" for s2 r'
      using 1(1) that 1(3-5) by blast
    show ?case
    proof (cases rule: store_at_cases [of "buf s" "len s" bs])
      case 1
      then show ?thesis using rc by (subst unfold_loop [OF \<open>live s\<close>]) (auto simp: drain_body_def)
    next
      case st: (2 b')
      note after = put_recvf [OF 1(6) rc st(1)]
      have "g os f cap (len s + k) b' (kern s1) = Some r"
        if "\<not> (len s < 0 \<or> int cap < len s)" "\<not> (k = 0 \<or> k < 0 \<and> would_block (os_errno os (kern s1)))"
        using 1(2-5,7-9) os st(1) that by auto
      then show ?thesis using rc st(1) IH [of "put (len s + k) b' s1" r] after
        by (subst unfold_loop [OF 1(6)]) (auto simp: drain_body_def)
    qed
  qed
  then show ?thesis using assms by blast
qed

lemma loop_ref:
  assumes "live s"
  shows "drained (again s) len buf kern = drain_ref os f cap (len s) (buf s) (kern s)"
proof (cases "again s")
  case None
  then have "drain_ref os f cap (len s) (buf s) (kern s) = None"
    using ref_to_loop [OF _ assms refl refl refl] by (cases "drain_ref os f cap (len s) (buf s) (kern s)") auto
  then show ?thesis by (simp add: drained_def None)
next
  case (Some r)
  then show ?thesis using loop_to_ref [OF Some assms] by simp
qed

text \<open>One turn of the loop from within the array, by what \<open>recv\<close> returned.\<close>

definition turn :: "'s \<Rightarrow> nat \<Rightarrow> int \<Rightarrow> byte list \<Rightarrow> 'w \<Rightarrow> (int \<Rightarrow> 's) \<Rightarrow> bool" where
  "turn s off n bs w t \<longleftrightarrow>
     (\<forall>m. live (t m) \<and> len (t m) = m \<and> kern (t m) = w \<and> hist (t m) = hist s @ [SysRecv f (cap - off) n bs] \<and>
        buf (t m) = take off (buf s) @ map Some bs @ drop (off + length bs) (buf s)) \<and>
     again s = (if n = 0 \<or> n < 0 \<and> would_block (os_errno os w) then Ok (t (int off)) else again (t (int off + n)))"

lemma one_turn:
  assumes s: "live s" "len s = int off" "off \<le> cap"
    and rc: "os_recv os f (cap - off) (kern s) = ((n, bs), w)" and fits: "off + length bs \<le> cap"
  obtains t where "turn s off n bs w t"
proof -
  obtain s1 where r: "recvf (cap - off) s = ((n, bs), s1)" and w: "kern s1 = w"
    using recvf_kern [OF s(1)] rc by (metis Pair_inject surj_pair)
  have st: "store_at (buf s) (len s) bs = Ok (take off (buf s) @ map Some bs @ drop (off + length bs) (buf s))"
    (is "_ = Ok ?b") using s fits by (simp add: store_at_def buf_length)
  have k: "nat (int cap - int off) = cap - off" using s(3) by simp
  have "again s = (if n = 0 \<or> n < 0 \<and> would_block (os_errno os w) then Ok (put (int off) ?b s1)
      else again (put (int off + n) ?b s1))"
    using s r st w by (subst unfold_loop) (auto simp: drain_body_def k)
  then have "turn s off n bs w (\<lambda>m. put m ?b s1)"
    using put_recvf [OF s(1) r st] recvf_hist [OF s(1) r] w by (simp add: turn_def hist_put)
  then show ?thesis by (rule that)
qed

text \<open>Whatever the replies are, the loop plays them: it faults with them, or returns with the fill level
  and the array they leave.\<close>

lemma loop_replies:
  assumes "live s" and "len s = int off" and "off \<le> cap" and "replies os f cap off rs (kern s)"
  shows "(\<forall>e. played off (buf s) rs = Fault e \<longrightarrow> again s = Fault e) \<and>
    (\<forall>k b. played off (buf s) rs = Ok (k, b) \<longrightarrow>
       holds (\<lambda>s'. live s' \<and> len s' = int k \<and> k \<le> cap \<and> buf s' = b) (again s))"
  using assms
proof (induction rs arbitrary: s off)
  case Nil
  obtain n bs w where rc: "os_recv os f (cap - off) (kern s) = ((n, bs), w)" by (metis surj_pair)
  then have bs: "bs = []" and stop: "n = 0 \<or> n < 0 \<and> would_block (os_errno os w)" using Nil.prems(4) by auto
  have "off + length bs \<le> cap" using Nil.prems(3) bs by simp
  from one_turn [OF Nil.prems(1-3) rc this] obtain t where t: "turn s off n bs w t" .
  then have "again s = Ok (t (int off))" using stop by (simp add: turn_def)
  then show ?case using Nil.prems(3) t bs by (simp add: turn_def)
next
  case (Cons r rs)
  obtain n bs w where rc: "os_recv os f (cap - off) (kern s) = ((n, bs), w)" by (metis surj_pair)
  show ?case
  proof (cases r)
    case (Got c)
    then have c: "bs = c" "c \<noteq> []" "n = int (length c)" "off + length c \<le> cap"
      "replies os f cap (off + length c) rs w" using Cons.prems(4) rc by auto
    have "off + length bs \<le> cap" using c by simp
    from one_turn [OF Cons.prems(1-3) rc this] obtain u where u: "turn s off n bs w u" .
    define t where "t = u (int off + n)"
    have t: "live t" "len t = int (off + length c)" "kern t = w" "again s = again t"
      "buf t = take off (buf s) @ map Some c @ drop (off + length c) (buf s)"
      using u c(1-3) by (simp_all add: turn_def t_def)
    show ?thesis using Cons.IH [OF t(1,2) c(4)] t(3-5) c(5) Got by simp
  next
    case Failed
    then have r: "bs = []" "n = -1" "\<not> would_block (os_errno os w)" "off = 0 \<or> replies os f cap (off - 1) rs w"
      using Cons.prems(4) rc by auto
    have "off + length bs \<le> cap" using r(1) Cons.prems(3) by simp
    from one_turn [OF Cons.prems(1-3) rc this] obtain u where u: "turn s off n bs w u" .
    define t where "t = u (int off - 1)"
    have t: "live t" "len t = int off - 1" "kern t = w" "buf t = buf s" "again s = again t"
      using u r(1-3) by (simp_all add: turn_def t_def)
    show ?thesis
    proof (cases off)
      case 0
      have "again t = Fault OutOfBounds"
        using t 0 by (subst unfold_loop) (simp_all add: drain_body_def)
      then show ?thesis using 0 Failed t(5) by simp
    next
      case (Suc k)
      then show ?thesis using Cons.IH [OF t(1), of k] t r(4) Failed Cons.prems(3) by simp
    qed
  qed
qed

text \<open>Every run of the loop that comes to an end is one of these.\<close>

lemma loop_has_replies:
  assumes R: "recv_contract os" and run: "again s = Some r" "live s" and off: "len s = int off" "off \<le> cap"
  shows "\<exists>rs. replies os f cap off rs (kern s)"
proof -
  have "\<forall>off. len s = int off \<longrightarrow> off \<le> cap \<longrightarrow> (\<exists>rs. replies os f cap off rs (kern s))"
  proof (rule induct_loop [where P = "\<lambda>s r. \<forall>off. len s = int off \<longrightarrow> off \<le> cap \<longrightarrow> (\<exists>rs. replies os f cap off rs (kern s))", OF run],
      intro allI impI, goal_cases)
    case (1 g s r off)
    have IH: "\<exists>rs. replies os f cap off' rs (kern s')"
      if "live s'" "g s' = Some r" "len s' = int off'" "off' \<le> cap" for s' off' using 1(1) that by blast
    obtain n bs s1 where rc: "recvf (cap - off) s = ((n, bs), s1)" by (metis surj_pair)
    note os = recvf_kern [OF 1(2) rc]
    have bs: "n = -1 \<and> bs = [] \<or> 0 \<le> n \<and> n = int (length bs) \<and> length bs \<le> cap - off"
      using R os unfolding recv_contract_def by blast
    have k: "nat (int cap - int off) = cap - off" using 1(5) by simp
    have "off + length bs \<le> cap" using bs 1(5) by auto
    then obtain b where st: "store_at (buf s) (len s) bs = Ok b" using 1(2,4) by (simp add: store_at_def buf_length)
    note after = put_recvf [OF 1(2) rc st]
    have go: "g (put (len s + n) b s1) = Some r" if "\<not> (n = 0 \<or> n < 0 \<and> would_block (os_errno os (kern s1)))"
      using 1(3-5) rc st that by (simp add: drain_body_def k)
    consider (stop) "n = 0 \<or> n < 0 \<and> would_block (os_errno os (kern s1))"
      | (got) "0 < n" | (fail) "n = -1" "\<not> would_block (os_errno os (kern s1))" using bs by fastforce
    then show ?case
    proof cases
      case stop
      then show ?thesis using os bs by (intro exI [of _ "[]"]) auto
    next
      case got
      then have c: "bs \<noteq> []" "n = int (length bs)" "off + length bs \<le> cap" using bs 1(5) by auto
      obtain rs where "replies os f cap (off + length bs) rs (kern s1)"
        using IH [OF after(1), of "len s + n" "off + length bs"] go got after c 1(4) by auto
      then show ?thesis using os c by (intro exI [of _ "Got bs # rs"]) simp
    next
      case fail
      then have "bs = []" using bs by auto
      moreover have "off = 0 \<or> (\<exists>rs. replies os f cap (off - 1) rs (kern s1))"
        using IH [OF after(1), of "len s + n" "off - 1"] go fail after 1(4,5) by (cases off) auto
      then obtain rs where "off = 0 \<or> replies os f cap (off - 1) rs (kern s1)" by blast
      ultimately show ?thesis using os fail by (intro exI [of _ "Failed # rs"]) simp
    qed
  qed
  then show ?thesis using off by blast
qed

text \<open>If the kernel delivers the chunks, the loop returns, and the array holds them one after the
  other from the old fill level on.\<close>

lemma loop_delivers:
  assumes "live s" and "len s = int off" and "off \<le> cap" and "delivers os f cap off cs (kern s)"
  shows "holds (\<lambda>s'. live s' \<and> len s' = int (off + length (concat cs)) \<and>
           off + length (concat cs) \<le> cap \<and>
           buf s' = take off (buf s) @ map Some (concat cs) @ drop (off + length (concat cs)) (buf s))
         (again s)"
proof -
  have "off + length (concat cs) \<le> length (buf s)" using delivers_fits [OF assms(4,3)] by (simp add: buf_length assms(1))
  from played_chunks [OF this] loop_replies [OF assms(1-3), of "map Got cs"] assms(4) show ?thesis
    by (simp add: delivers_replies)
qed

text \<open>Total correctness: on a connection without hard errors the loop always returns and stays within
  its array, which then holds, from the old fill level on, all the bytes that were received.\<close>

lemma loop_burst:
  assumes "recv_contract os" and "recv_soft os" and "live s" and "len s = int off" and "off \<le> cap"
  shows "holds (\<lambda>s'. live s' \<and> (\<exists>m calls. burst_read os f cap off m calls (kern s') \<and> hist s' = hist s @ calls \<and>
      len s' = int (off + length m) \<and> buf s' = take off (buf s) @ map Some m @ drop (off + length m) (buf s))) (again s)"
  using assms(3-)
proof (induction "cap - off" arbitrary: s off rule: less_induct)
  case less
  obtain n bs w where rc: "os_recv os f (cap - off) (kern s) = ((n, bs), w)" by (metis surj_pair)
  have bs: "n = -1 \<and> bs = [] \<or> 0 \<le> n \<and> n = int (length bs) \<and> length bs \<le> cap - off"
    using assms(1) rc unfolding recv_contract_def by blast
  have soft: "n < 0 \<Longrightarrow> would_block (os_errno os w)" using assms(2) rc unfolding recv_soft_def by blast
  have fits: "off + length bs \<le> cap" using bs less.prems(3) by auto
  let ?b = "take off (buf s) @ map Some bs @ drop (off + length bs) (buf s)"
  from one_turn [OF less.prems rc fits] obtain t where t': "turn s off n bs w t" .
  then have t: "live (t m)" "len (t m) = m" "kern (t m) = w" "buf (t m) = ?b" "hist (t m) = hist s @ [SysRecv f (cap - off) n bs]"
    for m by (simp_all add: turn_def)
  show ?case
  proof (cases "n \<le> 0")
    case True
    then have stop: "n = 0 \<or> n < 0 \<and> would_block (os_errno os w)" "bs = []" using soft bs by auto
    then have "burst_read os f cap off [] [SysRecv f (cap - off) n bs] w"
      using bs less.prems(3) by (auto simp: burst_read_def only_recv_def)
    moreover have "again s = Ok (t (int off))" using t' stop by (simp add: turn_def)
    ultimately show ?thesis using t stop(2) by (auto intro!: exI [of _ "[]"] exI [of _ "[SysRecv f (cap - off) n bs]"])
  next
    case False
    then have n: "n = int (length bs)" "bs \<noteq> []" "\<not> (n = 0 \<or> n < 0 \<and> would_block (os_errno os w))" using bs by auto
    have "length (take off (buf s) @ map Some bs) = off + length bs"
      using less.prems(1,3) by (simp add: buf_length)
    then have b: "take (off + length bs) ?b = take off (buf s) @ map Some bs"
      "drop ((off + length bs) + m) ?b = drop (off + length bs + m) (buf s)" for m
      unfolding append_assoc [symmetric] by (simp_all add: add.commute)
    have "cap - (off + length bs) < cap - off" using fits n(2) by (cases bs) auto
    from less.hyps [OF this t(1) _ fits, of "int off + n"] t n(1) obtain s' m calls where
      s': "again (t (int off + n)) = Ok s'" "live s'"
      "burst_read os f cap (off + length bs) m calls (kern s')" "hist s' = hist (t (int off + n)) @ calls"
      "len s' = int (off + length bs + length m)"
      "buf s' = take (off + length bs) ?b @ map Some m @ drop (off + length bs + length m) ?b"
      by (auto simp: holds_iff)
    have "burst_read os f cap off (bs @ m) (SysRecv f (cap - off) n bs # calls) (kern s')"
      by (rule burst_read_Cons [OF s'(3)])
    moreover have "again s = Ok s'" using t' n(3) s'(1) by (simp add: turn_def)
    ultimately show ?thesis using s'(2,4-6) t(5) b
      by (auto simp: add.assoc intro!: exI [of _ "bs @ m"] exI [of _ "SysRecv f (cap - off) n bs # calls"])
  qed
qed

text \<open>What the loop stores it takes from what the peers still have to send.\<close>

lemma loop_takes:
  assumes R: "recv_contract os" and L: "recv_takes os f left" and s: "live s"
  shows "within {OutOfBounds} (\<lambda>s'. live s' \<and> len s' + int (left (kern s') f) \<le> len s + int (left (kern s) f) \<and>
      (\<forall>g. g \<noteq> f \<longrightarrow> left (kern s') g \<le> left (kern s) g)) (again s)"
proof -
  let ?I = "\<lambda>s'. len s' + int (left (kern s') f) \<le> len s + int (left (kern s) f) \<and>
    (\<forall>g. g \<noteq> f \<longrightarrow> left (kern s') g \<le> left (kern s) g)"
  have step: "?I (put m b s2)" if "live s1" "?I s1" "recvf k s1 = ((n, bs), s2)" "store_at (buf s1) (len s1) bs = Ok b"
    "m \<le> len s1 + int (length bs)" for s1 k n bs s2 b m
  proof -
    have "length bs + left (kern s2) f \<le> left (kern s1) f" "\<forall>g. g \<noteq> f \<longrightarrow> left (kern s2) g \<le> left (kern s1) g"
      using L recvf_kern [OF that(1,3)] unfolding recv_takes_def by blast+
    then show ?thesis using that(2,5) put_recvf [OF that(1,3,4)] by fastforce
  qed
  show ?thesis
  proof (rule loop_rule [where I = ?I, OF s], goal_cases)
    case (2 s1 k n bs s2 b)
    then show ?case using step [OF 2(1-3,7), of "len s1"] by simp
  next
    case (3 s1 k n bs s2 b)
    then have "n \<le> int (length bs)"
      using R recvf_kern [OF 3(1,3)] unfolding recv_contract_def by fastforce
    then show ?case using step [OF 3(1-3,7)] by simp
  qed simp
qed

lemma loop_returns:
  assumes "recv_contract os" and "recv_soft os" and "live s" and "0 \<le> len s" and "len s \<le> int cap"
  shows "holds (\<lambda>s'. live s' \<and> 0 \<le> len s' \<and> len s' \<le> int cap) (again s)"
proof -
  have "len s = int (nat (len s))" and off: "nat (len s) \<le> cap" using assms(4,5) by auto
  from loop_burst [OF assms(1-3) this] obtain s' m calls where "again s = Ok s'" "live s'"
    "burst_read os f cap (nat (len s)) m calls (kern s')" "len s' = int (nat (len s) + length m)"
    by (auto simp: holds_iff)
  moreover from this have "nat (len s) + length m \<le> cap" by (simp add: burst_read_def)
  then have "0 \<le> len s' \<and> len s' \<le> int cap" unfolding \<open>len s' = int (nat (len s) + length m)\<close> by linarith
  ultimately show ?thesis by simp
qed

text \<open>In whatever state it is entered, the loop ends on such a connection, with a fault at worst.\<close>

lemma loop_ends:
  assumes "recv_contract os" and "recv_soft os" and "live s"
  shows "ends (again s)"
proof (cases "0 \<le> len s \<and> len s \<le> int cap")
  case True
  then show ?thesis using loop_returns [OF assms] holds_ends by blast
next
  case False
  then show ?thesis by (subst unfold_loop [OF assms(3)]) (auto simp: drain_body_def)
qed

text \<open>A hard error makes the fill level drop by one and the loop go on: with an empty array the next
  round points before its start.\<close>

lemma loop_hard_error:
  assumes "live s" and "len s = 0" and "recvf cap s = ((-1, []), s1)"
    and "\<not> would_block (os_errno os (kern s1))"
  shows "again s = Fault OutOfBounds"
  using loop_replies [of s 0 "[Failed]"] assms recvf_kern [OF assms(1,3)] by simp

end

end
