(* ===== verification/Server.thy ===== *)
theory Server
  imports Epoll Drain
begin

text \<open>
  \<open>inc/Server.hpp\<close>, \<open>src/Server.cpp\<close>: the server object and its three handlers. \<open>recv_loop\<close> is
  the \<open>while(true)\<close> of \<open>recvCallback\<close>; it interprets \<open>drain_loop\<close>. \<open>run_callback\<close> is the call of a
  bound handler, the instance of \<open>run\<close> in the connection's \<open>exe\<dots>Callback\<close>.
\<close>

record Server =
  servSock :: ptr
  serv_loop :: ptr

text \<open>
  The constructor first tests its member \<open>loop\<close>, which nothing has initialised: the argument
  \<open>loop_mem\<close> is what the memory of the new object holds there. \<open>loop_arg\<close> is the parameter \<open>_loop\<close>.
\<close>

definition Server_ctor :: "'w os \<Rightarrow> ptr \<Rightarrow> ptr \<Rightarrow> 'w reactor \<Rightarrow> (Server \<times> 'w reactor) res" where
  "Server_ctor os loop_mem loop_arg s =
     andThen (errif (loop_mem \<noteq> Null) ''EventLoop * is nullptr!'') (\<lambda>_.
     andThen (Socket_ip os ''127.0.0.1'' 8080 s) (\<lambda>(sock, s).
     andThen (Socket_listen os sock MAX_LISTEN_NUM s) (\<lambda>s.
     andThen (setEvent sock (EPOLLIN OR EPOLLET) s) (\<lambda>s.
     andThen (setNonBlocking os sock s) (\<lambda>s.
     if loop_arg = Null then Fault NullDeref
     else
     andThen (updateConnection os sock ACTION_UPDATE s) (\<lambda>s.
     andThen (Epoll_setRecvCallback sock AcceptCallback s) (\<lambda>s.
       Ok (\<lparr>servSock = sock, serv_loop = loop_arg\<rparr>, s))))))))"

definition acceptCallback :: "'w os \<Rightarrow> ptr \<Rightarrow> 'w reactor \<Rightarrow> 'w reactor res" where
  "acceptCallback os conn s =
     andThen (Socket_accept os conn s) (\<lambda>(client_conn, s).
       if client_conn = Null then Ok s
       else
       andThen (getFd client_conn s) (\<lambda>client_fd.
       let s = log (OutClient client_fd) s in
       andThen (setNonBlocking os client_conn s) (\<lambda>s.
       andThen (setEvent client_conn (EPOLLET OR EPOLLIN) s) (\<lambda>s.
       andThen (updateConnection os client_conn ACTION_UPDATE s) (\<lambda>s.
       andThen (Epoll_setRecvCallback client_conn RecvCallback s) (\<lambda>s.
         Epoll_setSendCallback client_conn SendCallback s))))))"

text \<open>
  The receive loop. The address \<open>getrBuffer() + rlen\<close> must lie within the array (its end included);
  the size passed is the room left.
\<close>

partial_function (option) recv_loop :: "'w os \<Rightarrow> ptr \<Rightarrow> 'w reactor \<Rightarrow> 'w reactor res" where
  "recv_loop os conn s =
     andThen (getCurRlen conn s) (\<lambda>rl.
     andThen (getFd conn s) (\<lambda>f.
     andThen (getrBuffer conn s) (\<lambda>buf.
       if rl < 0 \<or> int RECV_BUFFER_LENGTH < rl then Fault OutOfBounds
       else
       let ((recv_bytes, bs), s) = sys_recv os f (nat (int RECV_BUFFER_LENGTH - rl)) s in
       andThen (store_at buf rl bs) (\<lambda>buf.
       andThen (put_rBuffer conn buf s) (\<lambda>s.
         if recv_bytes = 0 \<or> (recv_bytes < 0 \<and> would_block (errno os s))
         then Ok s
         else andThen (setRLen conn (rl + recv_bytes) s) (\<lambda>s. recv_loop os conn s))))))"

definition recvCallback :: "'w os \<Rightarrow> ptr \<Rightarrow> 'w reactor \<Rightarrow> 'w reactor res" where
  "recvCallback os conn s =
     andThen (rBufferClear conn s) (\<lambda>s.
     andThen (recv_loop os conn s) (\<lambda>s.
     andThen (getrBuffer conn s) (\<lambda>buf.
     andThen (cstr buf) (\<lambda>text.
     let s = log (OutRecv text) s in
     andThen (setEvent conn EPOLLOUT s) (\<lambda>s.
       updateConnection os conn ACTION_UPDATE s)))))"

definition sendCallback :: "'w os \<Rightarrow> ptr \<Rightarrow> 'w reactor \<Rightarrow> 'w reactor res" where
  "sendCallback os conn s =
     andThen (getwBuffer conn s) (\<lambda>dst.
     andThen (getrBuffer conn s) (\<lambda>src.
     andThen (strcpy dst src) (\<lambda>buf.
     andThen (put_wBuffer conn buf s) (\<lambda>s.
     andThen (getCurRlen conn s) (\<lambda>rl.
     andThen (setWLen conn rl s) (\<lambda>s.
     andThen (getFd conn s) (\<lambda>f.
     andThen (getwBuffer conn s) (\<lambda>w.
     andThen (getCurWlen conn s) (\<lambda>wl.
       if wl < 0 \<or> int (length w) < wl then Fault OutOfBounds
       else updateConnection os conn ACTION_DELETE (sys_write os f (take (nat wl) w) s))))))))))"

definition run_callback :: "'w os \<Rightarrow> callback \<Rightarrow> 'w reactor \<Rightarrow> 'w reactor res" where
  "run_callback os cb s = (case bound_fun cb of
       AcceptCallback \<Rightarrow> acceptCallback os (bound_conn cb) s
     | RecvCallback \<Rightarrow> recvCallback os (bound_conn cb) s
     | SendCallback \<Rightarrow> sendCallback os (bound_conn cb) s)"

section \<open>The receive loop as an instance of \<open>drain_loop\<close>\<close>

definition rx_len :: "nat \<Rightarrow> 'w reactor \<Rightarrow> int" where
  "rx_len a s = rlen (the (conns s a))"

definition rx_buf :: "nat \<Rightarrow> 'w reactor \<Rightarrow> cell list" where
  "rx_buf a s = rbuffer (the (conns s a))"

definition rx_put :: "nat \<Rightarrow> int \<Rightarrow> cell list \<Rightarrow> 'w reactor \<Rightarrow> 'w reactor" where
  "rx_put a n b s = s\<lparr>conns := (conns s)(a \<mapsto> (the (conns s a))\<lparr>rbuffer := b, rlen := n\<rparr>)\<rparr>"

definition rx_live :: "nat \<Rightarrow> int \<Rightarrow> 'w reactor \<Rightarrow> bool" where
  "rx_live a f s \<longleftrightarrow>
     (\<exists>c. conns s a = Some c \<and> conn_fd c = f \<and> length (rbuffer c) = RECV_BUFFER_LENGTH)"

lemmas rx_defs = rx_len_def rx_buf_def rx_put_def rx_live_def

lemma rx_put_len [simp]: "rx_put a (rlen c) b s = s\<lparr>conns := (conns s)(a \<mapsto> c\<lparr>rbuffer := b\<rparr>)\<rparr>"
  if "conns s a = Some c"
  using that by (simp add: rx_put_def)

lemma sys_recv_frame:
  assumes "sys_recv os f k s = (ans, s1)"
  shows "conns s1 = conns s" "inets s1 = inets s" "next_conn s1 = next_conn s"
    "next_inet s1 = next_inet s" "epfd s1 = epfd s" "connMap s1 = connMap s"
    "os_recv os f k (kernel s) = (ans, kernel s1)"
    "trace s1 = trace s @ [SysRecv f k (fst ans) (snd ans)]"
  using assms by (auto simp: sys_recv_def log_def split: prod.splits)

text \<open>One round of the loop, as the drain loop's body over the accessors.\<close>

lemma recv_round:
  assumes "rx_live a f s"
  shows "andThen (getCurRlen (Ptr a) s) (\<lambda>rl.
     andThen (getFd (Ptr a) s) (\<lambda>f.
     andThen (getrBuffer (Ptr a) s) (\<lambda>buf.
       if rl < 0 \<or> int RECV_BUFFER_LENGTH < rl then Fault OutOfBounds
       else
       let ((recv_bytes, bs), s) = sys_recv os f (nat (int RECV_BUFFER_LENGTH - rl)) s in
       andThen (store_at buf rl bs) (\<lambda>buf.
       andThen (put_rBuffer (Ptr a) buf s) (\<lambda>s.
         if recv_bytes = 0 \<or> (recv_bytes < 0 \<and> would_block (errno os s))
         then Ok s
         else andThen (setRLen (Ptr a) (rl + recv_bytes) s) (\<lambda>s. g s)))))) =
    drain_body (sys_recv os f) (\<lambda>s. os_errno os (kernel s)) RECV_BUFFER_LENGTH
      (rx_len a) (rx_buf a) (rx_put a) g s"
proof -
  obtain c where c: "conns s a = Some c" "conn_fd c = f" using assms by (auto simp: rx_live_def)
  obtain n bs s1 where rc: "sys_recv os f (nat (int RECV_BUFFER_LENGTH - rlen c)) s = ((n, bs), s1)"
    by (metis surj_pair)
  note fr = sys_recv_frame [OF rc]
  show ?thesis
  proof (cases rule: store_at_cases [of "rbuffer c" "rlen c" bs])
    case 1
    then show ?thesis using c rc fr
      by (simp add: drain_body_def conn_exec rx_len_def rx_buf_def)
  next
    case (2 b)
    then show ?thesis using c rc fr
      by (cases "n = 0 \<or> n < 0 \<and> would_block (os_errno os (kernel s1))")
        (auto simp: drain_body_def conn_exec errno_def rx_len_def rx_buf_def rx_put_def)
  qed
qed

interpretation rx: drain_loop os f RECV_BUFFER_LENGTH "sys_recv os f" kernel "rx_len a" "rx_buf a" "rx_put a" "rx_live a f" trace "recv_loop os (Ptr a)"
  for os f a
proof (unfold_locales, goal_cases)
  case (1 s)
  then show ?case by (subst recv_loop.simps) (rule recv_round)
next
  case (2 s r P)
  have "rx_live a f s \<longrightarrow> P s r"
  proof (rule recv_loop.raw_induct [where P = "\<lambda>os' p s r. os' = os \<longrightarrow> p = Ptr a \<longrightarrow> rx_live a f s \<longrightarrow> P s r",
        OF _ 2(1), THEN mp, THEN mp, OF _ refl refl], intro impI, goal_cases)
    case (1 g os' p s r)
    have IH: "P s r" if "rx_live a f s" "g os (Ptr a) s = Some r" for s r
      using 1(1) that by blast
    show ?case
    proof (rule 2(3) [of "g os (Ptr a)"])
      show "rx_live a f s" by (rule 1(5))
      show "drain_body (sys_recv os f) (\<lambda>s. os_errno os (kernel s)) RECV_BUFFER_LENGTH
          (rx_len a) (rx_buf a) (rx_put a) (g os (Ptr a)) s = Some r"
        using 1(2) unfolding 1(3,4) recv_round [OF 1(5)] .
    qed (rule IH)
  qed
  then show ?case using 2(2) by blast
next
  case (4 s k ans s1)
  then show ?case by (auto simp: rx_live_def sys_recv_frame(1) [OF 4(2)])
qed (auto simp: rx_defs dest: sys_recv_frame(7,8))

section \<open>What the handlers do to memory\<close>

text \<open>The receive loop of the connection at \<open>a\<close> changes that connection's receive buffer and length
  only, and makes no call but \<open>recv\<close>.\<close>

definition rx_frame :: "nat \<Rightarrow> conn_obj \<Rightarrow> 'w reactor \<Rightarrow> 'w reactor \<Rightarrow> cell list \<Rightarrow> int \<Rightarrow> bool" where
  "rx_frame a c s s' b n \<longleftrightarrow>
     conns s' = (conns s)(a \<mapsto> c\<lparr>rbuffer := b, rlen := n\<rparr>) \<and>
     length b = RECV_BUFFER_LENGTH \<and> None \<notin> set b \<and>
     inets s' = inets s \<and> next_conn s' = next_conn s \<and> next_inet s' = next_inet s \<and>
     epfd s' = epfd s \<and> connMap s' = connMap s \<and>
     (\<exists>calls. trace s' = trace s @ calls \<and> (\<forall>e\<in>set calls. \<exists>k r bs. e = SysRecv (conn_fd c) k r bs))"

lemma rx_frame_step:
  assumes "rx_frame a c s s1 b n" and "sys_recv os (conn_fd c) k s1 = (ans, s2)"
    and "store_at (rx_buf a s1) (rx_len a s1) bs = Ok b'"
  shows "rx_frame a c s (rx_put a m b' s2) b' m"
proof -
  note fr = sys_recv_frame [OF assms(2)]
  have "trace s2 = trace s1 @ [SysRecv (conn_fd c) k (fst ans) (snd ans)]"
    using assms(2) by (auto simp: sys_recv_def split: prod.splits)
  moreover have "length b' = RECV_BUFFER_LENGTH" "None \<notin> set b'"
    using assms(1,3) by (auto simp: rx_frame_def rx_buf_def store_at_length dest: store_at_defined)
  ultimately show ?thesis
    using assms(1) fr by (auto simp: rx_frame_def rx_put_def)
qed

lemma recv_loop_frame:
  assumes s: "conns s a = Some c" "length (rbuffer c) = RECV_BUFFER_LENGTH" "None \<notin> set (rbuffer c)"
    and K: "K (kernel s)" "\<And>k w ans w'. K w \<Longrightarrow> os_recv os (conn_fd c) k w = (ans, w') \<Longrightarrow> K w'"
  shows "within {OutOfBounds} (\<lambda>s'. \<exists>b n. rx_frame a c s s' b n \<and> 0 \<le> n \<and>
     n \<le> int RECV_BUFFER_LENGTH \<and> K (kernel s')) (recv_loop os (Ptr a) s)"
proof -
  have live: "rx_live a (conn_fd c) s" using s by (simp add: rx_live_def)
  let ?I = "\<lambda>s'. (\<exists>b n. rx_frame a c s s' b n) \<and> K (kernel s')"
  let ?J = "\<lambda>s'. \<exists>b n. rx_frame a c s s' b n \<and> 0 \<le> n \<and> n \<le> int RECV_BUFFER_LENGTH \<and> K (kernel s')"
  have start: "?I s" using s K(1) by (auto simp: rx_frame_def fun_upd_idem intro!: exI [of _ "rbuffer c"] exI [of _ "rlen c"])
  have step: "rx_frame a c s (rx_put a m b s2) b m \<and> K (kernel (rx_put a m b s2))"
    if "?I s1" "sys_recv os (conn_fd c) k s1 = ((n, bs), s2)" "store_at (rx_buf a s1) (rx_len a s1) bs = Ok b"
    for s1 k n bs s2 b m
    using that rx_frame_step [OF _ that(2,3)] K(2) sys_recv_frame(7) [OF that(2)]
    by (auto simp: rx_put_def)
  have "within {OutOfBounds} (\<lambda>s'. rx_live a (conn_fd c) s' \<and> ?J s') (recv_loop os (Ptr a) s)"
  proof (rule rx.loop_rule [where I = ?I, OF live start], goal_cases)
    case (1 s1 k n bs s2 b)
    then show ?case using step [OF 1(2,3,7)] by blast
  next
    case (2 s1 k n bs s2 b)
    then show ?case using step [OF 2(2,3,7)] by blast
  qed
  then show ?thesis by (rule within_mono) auto
qed

text \<open>\<open>recvCallback\<close> on a registered connection: the only fault is an array overrun; otherwise the
  text was printed and the connection now waits to send.\<close>

definition received :: "conn_obj \<Rightarrow> cell list \<Rightarrow> int \<Rightarrow> conn_obj" where
  "received c b n = c\<lparr>rbuffer := b, rlen := n,
     event := Some \<lparr>events = EPOLLOUT, data_fd = conn_fd c\<rparr>\<rparr>"

definition recv_effect :: "'w os \<Rightarrow> ('w \<Rightarrow> bool) \<Rightarrow> nat \<Rightarrow> conn_obj \<Rightarrow> 'w reactor \<Rightarrow> 'w reactor \<Rightarrow>
    cell list \<Rightarrow> int \<Rightarrow> byte list \<Rightarrow> bool" where
  "recv_effect os K a c s s' b n text \<longleftrightarrow>
     length b = RECV_BUFFER_LENGTH \<and> cstr b = Ok text \<and> 0 \<le> n \<and> n \<le> int RECV_BUFFER_LENGTH \<and>
     conns s' = (conns s)(a \<mapsto> received c b n) \<and>
     inets s' = inets s \<and> next_conn s' = next_conn s \<and> next_inet s' = next_inet s \<and>
     epfd s' = epfd s \<and> connMap s' = connMap s \<and>
     (\<exists>s1 :: 'w reactor. K (kernel s1) \<and> kernel s' = kernel (sys_epoll_ctl os (epfd s) EPOLL_CTL_MOD (conn_fd c)
        (Some \<lparr>events = EPOLLOUT, data_fd = conn_fd c\<rparr>) s1)) \<and>
     (\<exists>calls. trace s' = trace s @ calls @ [OutRecv text, SysEpollCtl EPOLL_CTL_MOD (conn_fd c)
        (Some \<lparr>events = EPOLLOUT, data_fd = conn_fd c\<rparr>)] \<and>
        (\<forall>e\<in>set calls. \<exists>k r bs. e = SysRecv (conn_fd c) k r bs))"

text \<open>The part of \<open>recvCallback\<close> after the loop.\<close>

lemma recv_tail:
  assumes "rx_frame a c s s1 b n" and "inEpoll c" and "0 \<le> n" "n \<le> int RECV_BUFFER_LENGTH" and "K (kernel s1)"
    and "cstr b = Ok text"
  shows "holds (\<lambda>s'. recv_effect os K a c s s' b n text \<and> trace s' = trace s1 @ [OutRecv text,
       SysEpollCtl EPOLL_CTL_MOD (conn_fd c) (Some \<lparr>events = EPOLLOUT, data_fd = conn_fd c\<rparr>)])
    (andThen (getrBuffer (Ptr a) s1) (\<lambda>buf. andThen (cstr buf) (\<lambda>text.
       let s = log (OutRecv text) s1 in
       andThen (setEvent (Ptr a) EPOLLOUT s) (\<lambda>s. updateConnection os (Ptr a) ACTION_UPDATE s))))"
  using assms
  by (auto simp: recv_effect_def rx_frame_def received_def conn_exec updateConnection_def Let_def
      intro!: exI [of _ "(log (OutRecv text) s1)\<lparr>conns := (conns s)(a \<mapsto> received c b n)\<rparr>"])

lemma recvCallback_unfold:
  assumes "conns s a = Some c"
  shows "recvCallback os (Ptr a) s =
    andThen (recv_loop os (Ptr a) (s\<lparr>conns := (conns s)(a \<mapsto> c\<lparr>rbuffer := replicate RECV_BUFFER_LENGTH (Some 0)\<rparr>)\<rparr>))
     (\<lambda>s. andThen (getrBuffer (Ptr a) s) (\<lambda>buf. andThen (cstr buf) (\<lambda>text.
       let s = log (OutRecv text) s in
       andThen (setEvent (Ptr a) EPOLLOUT s) (\<lambda>s. updateConnection os (Ptr a) ACTION_UPDATE s))))"
  using assms by (simp add: recvCallback_def rBufferClear_def update_conn_def read_conn_def)

lemma recv_loop_cleared:
  assumes s: "conns s a = Some c"
    and K: "K (kernel s)" "\<And>k w ans w'. K w \<Longrightarrow> os_recv os (conn_fd c) k w = (ans, w') \<Longrightarrow> K w'"
  shows "within {OutOfBounds} (\<lambda>s'. \<exists>b n. rx_frame a c s s' b n \<and> 0 \<le> n \<and>
      n \<le> int RECV_BUFFER_LENGTH \<and> K (kernel s'))
    (recv_loop os (Ptr a) (s\<lparr>conns := (conns s)(a \<mapsto> c\<lparr>rbuffer := replicate RECV_BUFFER_LENGTH (Some 0)\<rparr>)\<rparr>))"
    (is "within _ _ (recv_loop os (Ptr a) ?s0)")
proof -
  have "within {OutOfBounds} (\<lambda>s'. \<exists>b n. rx_frame a (c\<lparr>rbuffer := replicate RECV_BUFFER_LENGTH (Some 0)\<rparr>) ?s0 s' b n \<and>
      0 \<le> n \<and> n \<le> int RECV_BUFFER_LENGTH \<and> K (kernel s')) (recv_loop os (Ptr a) ?s0)"
    by (rule recv_loop_frame) (use K in auto)
  then show ?thesis by (rule within_mono) (auto simp: rx_frame_def)
qed

text \<open>What holds of the state after the loop holds of what \<open>recvCallback\<close> returns from.\<close>

lemma recvCallback_rule:
  assumes s: "conns s a = Some c" "inEpoll c"
    and loop: "within {OutOfBounds} (\<lambda>s1. \<exists>b n. rx_frame a c s s1 b n \<and> 0 \<le> n \<and> n \<le> int RECV_BUFFER_LENGTH \<and> Q s1 b n)
      (recv_loop os (Ptr a) (s\<lparr>conns := (conns s)(a \<mapsto> c\<lparr>rbuffer := replicate RECV_BUFFER_LENGTH (Some 0)\<rparr>)\<rparr>))"
  shows "within {OutOfBounds} (\<lambda>s'. \<exists>s1 b n text. Q s1 b n \<and>
      recv_effect os (\<lambda>w. w = kernel s1) a c s s' b n text \<and> trace s' = trace s1 @ [OutRecv text,
       SysEpollCtl EPOLL_CTL_MOD (conn_fd c) (Some \<lparr>events = EPOLLOUT, data_fd = conn_fd c\<rparr>)])
    (recvCallback os (Ptr a) s)"
  unfolding recvCallback_unfold [OF s(1)]
proof (rule within_andThen [OF loop])
  fix s1
  assume "\<exists>b n. rx_frame a c s s1 b n \<and> 0 \<le> n \<and> n \<le> int RECV_BUFFER_LENGTH \<and> Q s1 b n"
  then obtain b n where fr: "rx_frame a c s s1 b n" and n: "0 \<le> n" "n \<le> int RECV_BUFFER_LENGTH" and q: "Q s1 b n"
    by blast
  have b: "getrBuffer (Ptr a) s1 = Ok b" "None \<notin> set b"
    using fr by (auto simp: rx_frame_def conn_exec)
  show "within {OutOfBounds} (\<lambda>s'. \<exists>s1 b n text. Q s1 b n \<and>
      recv_effect os (\<lambda>w. w = kernel s1) a c s s' b n text \<and> trace s' = trace s1 @ [OutRecv text,
       SysEpollCtl EPOLL_CTL_MOD (conn_fd c) (Some \<lparr>events = EPOLLOUT, data_fd = conn_fd c\<rparr>)])
    (andThen (getrBuffer (Ptr a) s1) (\<lambda>buf. andThen (cstr buf) (\<lambda>text.
       let s = log (OutRecv text) s1 in
       andThen (setEvent (Ptr a) EPOLLOUT s) (\<lambda>s. updateConnection os (Ptr a) ACTION_UPDATE s))))"
  proof (cases "cstr b")
    case None
    then show ?thesis by (simp add: cstr_returns)
  next
    case (Some r)
    show ?thesis
    proof (cases r)
      case (Inl f)
      then show ?thesis using Some b cstr_fault [OF b(2)] by auto
    next
      case (Inr str)
      show ?thesis
        by (rule within_mono [OF holds_within [OF recv_tail [where K = "\<lambda>w. w = kernel s1",
            OF fr s(2) n refl Some [unfolded Inr]]]]) (use q in blast)
    qed
  qed
qed

lemma recvCallback_effect:
  assumes s: "conns s a = Some c" "inEpoll c"
    and K: "K (kernel s)" "\<And>k w ans w'. K w \<Longrightarrow> os_recv os (conn_fd c) k w = (ans, w') \<Longrightarrow> K w'"
  shows "within {OutOfBounds} (\<lambda>s'. \<exists>b n text. recv_effect os K a c s s' b n text) (recvCallback os (Ptr a) s)"
proof (rule within_mono [OF recvCallback_rule [OF s recv_loop_cleared [where K = K, OF s(1) K]]])
  fix s'
  assume "\<exists>s1 b n text. K (kernel (s1 :: 'a reactor)) \<and> recv_effect os (\<lambda>w. w = kernel s1) a c s s' b n text \<and>
    trace s' = trace s1 @ [OutRecv text,
      SysEpollCtl EPOLL_CTL_MOD (conn_fd c) (Some \<lparr>events = EPOLLOUT, data_fd = conn_fd c\<rparr>)]"
  then obtain s1 b n str where k: "K (kernel (s1 :: 'a reactor))" and eff: "recv_effect os (\<lambda>w. w = kernel s1) a c s s' b n str"
    by blast
  from eff obtain s2 where "kernel (s2 :: 'a reactor) = kernel s1"
    "kernel s' = kernel (sys_epoll_ctl os (epfd s) EPOLL_CTL_MOD (conn_fd c)
        (Some \<lparr>events = EPOLLOUT, data_fd = conn_fd c\<rparr>) s2)"
    by (auto simp: recv_effect_def)
  then have "recv_effect os K a c s s' b n str" using eff k unfolding recv_effect_def by metis
  then show "\<exists>b n text. recv_effect os K a c s s' b n text" by blast
qed

text \<open>What the replies of \<open>recv\<close> leave in a cleared buffer with the old length \<open>off\<close> decides how the loop
  ends, and with it \<open>recvCallback\<close>.\<close>

abbreviation rx_zeros :: "cell list" where
  "rx_zeros \<equiv> replicate RECV_BUFFER_LENGTH (Some 0)"

lemma recv_loop_replies:
  assumes s: "conns s a = Some c" and off: "rlen c = int off" "off \<le> RECV_BUFFER_LENGTH"
    and rs: "replies os (conn_fd c) RECV_BUFFER_LENGTH off rs (kernel s)"
    and K: "K (kernel s)" "\<And>k w ans w'. K w \<Longrightarrow> os_recv os (conn_fd c) k w = (ans, w') \<Longrightarrow> K w'"
  shows "played off rx_zeros rs = Ok (k, b) \<Longrightarrow> holds (\<lambda>s'. K (kernel s') \<and> k \<le> RECV_BUFFER_LENGTH \<and> rx_frame a c s s' b (int k))
      (recv_loop os (Ptr a) (s\<lparr>conns := (conns s)(a \<mapsto> c\<lparr>rbuffer := rx_zeros\<rparr>)\<rparr>))"
    and "played off rx_zeros rs = Fault e \<Longrightarrow> recv_loop os (Ptr a) (s\<lparr>conns := (conns s)(a \<mapsto> c\<lparr>rbuffer := rx_zeros\<rparr>)\<rparr>) = Fault e"
proof -
  let ?s0 = "s\<lparr>conns := (conns s)(a \<mapsto> c\<lparr>rbuffer := rx_zeros\<rparr>)\<rparr>"
  note loop = rx.loop_replies [where s = ?s0 and a = a and f = "conn_fd c" and rs = rs, OF _ _ off(2)]
  have live: "rx_live a (conn_fd c) ?s0" "rx_len a ?s0 = int off" "rx_buf a ?s0 = rx_zeros"
    using off by (simp_all add: rx_live_def rx_len_def rx_buf_def)
  show "recv_loop os (Ptr a) ?s0 = Fault e" if "played off rx_zeros rs = Fault e"
    using loop [OF live(1,2)] rs that by (simp add: live)
  assume "played off rx_zeros rs = Ok (k, b)"
  then have "holds (\<lambda>s'. rx_live a (conn_fd c) s' \<and> rx_len a s' = int k \<and> k \<le> RECV_BUFFER_LENGTH \<and> rx_buf a s' = b)
      (recv_loop os (Ptr a) ?s0)"
    using loop [OF live(1,2)] rs by (simp add: live)
  moreover have "within {OutOfBounds} (\<lambda>s'. \<exists>b n. rx_frame a c s s' b n \<and> 0 \<le> n \<and>
      n \<le> int RECV_BUFFER_LENGTH \<and> K (kernel s')) (recv_loop os (Ptr a) ?s0)"
    by (rule recv_loop_cleared [where K = K, OF s K(1)]) (rule K(2))
  ultimately show "holds (\<lambda>s'. K (kernel s') \<and> k \<le> RECV_BUFFER_LENGTH \<and> rx_frame a c s s' b (int k)) (recv_loop os (Ptr a) ?s0)"
    by (auto simp: holds_iff rx_frame_def rx_buf_def rx_len_def)
qed

lemma recvCallback_replies:
  assumes s: "conns s a = Some c" "inEpoll c" and off: "rlen c = int off" "off \<le> RECV_BUFFER_LENGTH"
    and rs: "replies os (conn_fd c) RECV_BUFFER_LENGTH off rs (kernel s)"
    and K: "K (kernel s)" "\<And>k w ans w'. K w \<Longrightarrow> os_recv os (conn_fd c) k w = (ans, w') \<Longrightarrow> K w'"
    and b: "played off rx_zeros rs = Ok (k, b)" "cstr b = Ok txt"
  shows "holds (\<lambda>s'. recv_effect os K a c s s' b (int k) txt) (recvCallback os (Ptr a) s)"
  unfolding recvCallback_unfold [OF s(1)]
proof (rule holds_andThen [OF recv_loop_replies(1) [where K = K, OF s(1) off rs K(1) _ b(1)]], goal_cases)
  case (1 k w ans w')
  then show ?case by (rule K(2))
next
  case (2 s1)
  then have fr: "K (kernel s1)" "k \<le> RECV_BUFFER_LENGTH" "rx_frame a c s s1 b (int k)" by simp_all
  from recv_tail [where K = K and os = os, OF fr(3) s(2) _ _ fr(1) b(2)] fr(2)
  show ?case by (auto simp: holds_iff)
qed

lemma recvCallback_has_replies:
  assumes "recv_contract os" and "conns s a = Some c" and off: "rlen c = int off" "off \<le> RECV_BUFFER_LENGTH"
    and "recvCallback os (Ptr a) s \<noteq> None"
  shows "\<exists>rs. replies os (conn_fd c) RECV_BUFFER_LENGTH off rs (kernel s)"
proof -
  let ?s0 = "s\<lparr>conns := (conns s)(a \<mapsto> c\<lparr>rbuffer := rx_zeros\<rparr>)\<rparr>"
  obtain r where "recv_loop os (Ptr a) ?s0 = Some r"
    using assms(5) by (auto simp: recvCallback_unfold [OF assms(2)] andThen_eq_None)
  from rx.loop_has_replies [OF assms(1) this, of "conn_fd c" off] off show ?thesis
    by (simp add: rx_live_def rx_len_def)
qed

lemma recvCallback_replies_fault:
  assumes s: "conns s a = Some c" and off: "rlen c = int off" "off \<le> RECV_BUFFER_LENGTH"
    and rs: "replies os (conn_fd c) RECV_BUFFER_LENGTH off rs (kernel s)"
    and e: "andThen (played off rx_zeros rs) (\<lambda>(k, b). cstr b) = Fault e"
  shows "recvCallback os (Ptr a) s = Fault e"
proof -
  consider "played off rx_zeros rs = Fault e"
    | k b where "played off rx_zeros rs = Ok (k, b)" "cstr b = Fault e"
    using e by (auto simp: andThen_eq_Fault)
  then show ?thesis
  proof cases
    case 1
    then show ?thesis unfolding recvCallback_unfold [OF s]
      using recv_loop_replies(2) [where K = "\<lambda>_. True", OF s off rs] by simp
  next
    case (2 k b)
    with recv_loop_replies(1) [where K = "\<lambda>_. True", OF s off rs _ _ 2(1)] obtain s1 where
      "recv_loop os (Ptr a) (s\<lparr>conns := (conns s)(a \<mapsto> c\<lparr>rbuffer := rx_zeros\<rparr>)\<rparr>) = Ok s1" "rx_frame a c s s1 b (int k)"
      by (auto simp: holds_iff)
    then show ?thesis unfolding recvCallback_unfold [OF s] using 2(2) by (simp add: rx_frame_def conn_exec)
  qed
qed

text \<open>A message that leaves room for its terminator: \<open>recvCallback\<close> succeeds and has the whole of it.\<close>

definition rx_message :: "nat \<Rightarrow> byte list \<Rightarrow> cell list" where
  "rx_message off msg = replicate off (Some 0) @ map Some msg @
     replicate (RECV_BUFFER_LENGTH - (off + length msg)) (Some 0)"

definition rx_text :: "nat \<Rightarrow> byte list \<Rightarrow> byte list" where
  "rx_text off msg = (if off = 0 then takeWhile (\<lambda>b. b \<noteq> 0) msg else [])"

lemma rx_text_whole: "0 \<notin> set msg \<Longrightarrow> rx_text 0 msg = msg"
  by (auto simp: rx_text_def takeWhile_eq_all_conv)

lemma cstr_rx_message:
  "off + length msg < RECV_BUFFER_LENGTH \<Longrightarrow> cstr (rx_message off msg) = Ok (rx_text off msg)"
proof (cases off)
  case 0
  moreover assume "off + length msg < RECV_BUFFER_LENGTH"
  ultimately obtain k where "RECV_BUFFER_LENGTH - (off + length msg) = Suc k" by (metis Suc_diff_Suc)
  then show ?thesis using 0 by (simp add: rx_message_def rx_text_def cstr_takeWhile)
qed (simp add: rx_message_def rx_text_def)

lemma rx_message_played:
  "off + length (concat cs) \<le> RECV_BUFFER_LENGTH \<Longrightarrow>
   played off rx_zeros (map Got cs) = Ok (off + length (concat cs), rx_message off (concat cs))"
  by (simp add: played_chunks rx_message_def min_def)

lemma recvCallback_message_kernel:
  assumes s: "conns s a = Some c" "inEpoll c" and off: "rlen c = int off" "off \<le> RECV_BUFFER_LENGTH"
    and cs: "delivers os (conn_fd c) RECV_BUFFER_LENGTH off cs (kernel s)"
    and short: "off + length (concat cs) < RECV_BUFFER_LENGTH"
    and K: "K (kernel s)" "\<And>k w ans w'. K w \<Longrightarrow> os_recv os (conn_fd c) k w = (ans, w') \<Longrightarrow> K w'"
  shows "holds (\<lambda>s'. recv_effect os K a c s s' (rx_message off (concat cs))
      (int (off + length (concat cs))) (rx_text off (concat cs))) (recvCallback os (Ptr a) s)"
  by (rule recvCallback_replies [where K = K, OF s off cs [unfolded delivers_replies] K rx_message_played cstr_rx_message [OF short]])
    (use short in auto)

lemmas recvCallback_message = recvCallback_message_kernel [where K = "\<lambda>_. True", OF _ _ _ _ _ _ TrueI TrueI]

text \<open>A message that fills the buffer and has no NUL of its own: \<open>printf\<close> runs off the array.\<close>

lemma recvCallback_full:
  assumes s: "conns s a = Some c" and off: "rlen c = 0"
    and cs: "delivers os (conn_fd c) RECV_BUFFER_LENGTH 0 cs (kernel s)"
    and full: "length (concat cs) = RECV_BUFFER_LENGTH" "0 \<notin> set (concat cs)"
  shows "recvCallback os (Ptr a) s = Fault OutOfBounds"
proof -
  have "cstr (rx_message 0 (concat cs)) = Fault OutOfBounds"
    using full by (intro cstr_no_NUL) (auto simp: rx_message_def)
  then show ?thesis using off rx_message_played [of 0 cs] full(1)
    by (intro recvCallback_replies_fault [OF s _ _ cs [unfolded delivers_replies]]) auto
qed

text \<open>\<open>sendCallback\<close> on a connection with a text: what it writes, and that it then leaves the epoll
  instance and is destroyed, in this order.\<close>

definition tx_data :: "conn_obj \<Rightarrow> byte list \<Rightarrow> cell list" where
  "tx_data c txt = take (nat (rlen c)) (map Some txt @ Some 0 # drop (Suc (length txt)) (wbuffer c))"

lemma sendCallback_effect:
  assumes s: "conns s a = Some c" "inEpoll c" "inetAddr c = Ptr b" "inets s b = Some i"
    and buf: "length (rbuffer c) = RECV_BUFFER_LENGTH" "length (wbuffer c) = SEND_BUFFER_LENGTH"
      "cstr (rbuffer c) = Ok txt" "0 \<le> rlen c" "rlen c \<le> int RECV_BUFFER_LENGTH"
  shows "\<exists>s1 s2 s3 s'. sendCallback os (Ptr a) s = Ok s' \<and>
    kernel (s1 :: 'w reactor) = kernel s \<and>
    kernel (s2 :: 'w reactor) = kernel (sys_write os (conn_fd c) (tx_data c txt) s1) \<and>
    kernel (s3 :: 'w reactor) = kernel (sys_epoll_ctl os (epfd s) EPOLL_CTL_DEL (conn_fd c) None s2) \<and>
    kernel s' = kernel (sys_close os (conn_fd c) s3) \<and>
    trace s' = trace s @ [SysWrite (conn_fd c) (tx_data c txt), SysEpollCtl EPOLL_CTL_DEL (conn_fd c) None,
      SysClose (conn_fd c)] \<and>
    conns s' = (conns s)(a := None) \<and> inets s' = (inets s)(b := None) \<and>
    connMap s' = (connMap s)(conn_fd c \<mapsto> Null) \<and>
    next_conn s' = next_conn s \<and> next_inet s' = next_inet s \<and> epfd s' = epfd s"
proof -
  let ?w = "map Some txt @ Some 0 # drop (Suc (length txt)) (wbuffer c)"
  let ?c = "c\<lparr>wbuffer := ?w, wlen := rlen c\<rparr>"
  have sizes: "length (wbuffer c) = length (rbuffer c)"
    using buf(1,2) by (simp add: RECV_BUFFER_LENGTH_def SEND_BUFFER_LENGTH_def)
  have cpy: "strcpy (wbuffer c) (rbuffer c) = Ok ?w"
    by (rule strcpy_fits [OF sizes buf(3)])
  have "length ?w = length (wbuffer c)"
    using cpy strcpy_def buf(3) store_at_length by (metis andThen_simps(3))
  then have fits: "\<not> (rlen c < 0 \<or> int (length ?w) < rlen c)" using buf sizes by simp
  define s1 where "s1 = s\<lparr>conns := (conns s)(a \<mapsto> ?c)\<rparr>"
  define s2 where "s2 = (sys_write os (conn_fd c) (tx_data c txt) s1)\<lparr>connMap := (connMap s)(conn_fd c \<mapsto> Null)\<rparr>"
  define s3 where "s3 = sys_epoll_ctl os (epfd s) EPOLL_CTL_DEL (conn_fd c) None s2"
  have fr: "conns s3 = (conns s)(a \<mapsto> ?c)" "inets s3 = inets s" "connMap s3 = (connMap s)(conn_fd c \<mapsto> Null)"
    "next_conn s3 = next_conn s" "next_inet s3 = next_inet s" "epfd s3 = epfd s"
    "trace s3 = trace s @ [SysWrite (conn_fd c) (tx_data c txt), SysEpollCtl EPOLL_CTL_DEL (conn_fd c) None]"
    by (simp_all add: s3_def s2_def s1_def)
  have "sendCallback os (Ptr a) s =
    updateConnection os (Ptr a) ACTION_DELETE (sys_write os (conn_fd c) (tx_data c txt) s1)"
    using s(1) cpy fits by (simp add: sendCallback_def conn_exec tx_data_def s1_def)
  also have "\<dots> = delete_conn os (Ptr a) s3"
    using s(2) by (subst update_delete [where c = ?c]) (simp_all add: s1_def s2_def s3_def)
  also have "\<dots> = Ok ((sys_close os (conn_fd c) (s3\<lparr>inets := (inets s)(b := None)\<rparr>))
      \<lparr>conns := (conns s)(a := None)\<rparr>)"
    using s fr(1,2) by (subst delete_conn_live [where c = ?c and b = b]) auto
  finally have run: "sendCallback os (Ptr a) s =
    Ok ((sys_close os (conn_fd c) (s3\<lparr>inets := (inets s)(b := None)\<rparr>))\<lparr>conns := (conns s)(a := None)\<rparr>)"
    (is "_ = Ok ?s'") .
  have k: "kernel s1 = kernel s" "kernel s2 = kernel (sys_write os (conn_fd c) (tx_data c txt) s1)"
    "kernel s3 = kernel (sys_epoll_ctl os (epfd s) EPOLL_CTL_DEL (conn_fd c) None s2)"
    "kernel ?s' = kernel (sys_close os (conn_fd c) s3)"
    by (simp_all add: s1_def s2_def s3_def sys_close_def split: prod.splits)
  show ?thesis
    by (rule exI [of _ s1], rule exI [of _ s2], rule exI [of _ s3], rule exI [of _ ?s'])
      (use run k fr in simp)
qed

text \<open>A message and the answer to it: what a client of the server sees.\<close>

lemma receive_then_send_replies:
  assumes c: "conns s a = Some c" "inEpoll c" "length (wbuffer c) = SEND_BUFFER_LENGTH" "rlen c = 0"
    and ip: "inetAddr c = Ptr b" "inets s b = Some i"
    and rs: "replies os (conn_fd c) RECV_BUFFER_LENGTH 0 rs (kernel s)"
    and m: "played 0 rx_zeros rs = Ok (k, m)" "cstr m = Ok t"
  shows "\<exists>s' calls. andThen (recvCallback os (Ptr a) s) (sendCallback os (Ptr a)) = Ok s' \<and>
    only_recv (conn_fd c) calls \<and>
    trace s' = trace s @ calls @ [OutRecv t,
      SysEpollCtl EPOLL_CTL_MOD (conn_fd c) (Some \<lparr>events = EPOLLOUT, data_fd = conn_fd c\<rparr>),
      SysWrite (conn_fd c) (take k (map Some t @ Some 0 # drop (Suc (length t)) (wbuffer c))),
      SysEpollCtl EPOLL_CTL_DEL (conn_fd c) None, SysClose (conn_fd c)] \<and>
    conns s' = (conns s)(a := None) \<and> connMap s' = (connMap s)(conn_fd c \<mapsto> Null)"
proof -
  let ?c = "received c m (int k)"
  obtain s1 where r: "recvCallback os (Ptr a) s = Ok s1" "recv_effect os (\<lambda>_. True) a c s s1 m (int k) t"
    using recvCallback_replies [where K = "\<lambda>_. True", OF c(1,2) _ _ rs _ _ m] c(4) by (auto simp: holds_iff)
  then have s1: "conns s1 = (conns s)(a \<mapsto> ?c)" "inets s1 = inets s" "connMap s1 = connMap s"
    "length m = RECV_BUFFER_LENGTH" "cstr m = Ok t" "k \<le> RECV_BUFFER_LENGTH"
    and tr: "\<exists>calls. only_recv (conn_fd c) calls \<and> trace s1 = trace s @ calls @ [OutRecv t,
      SysEpollCtl EPOLL_CTL_MOD (conn_fd c) (Some \<lparr>events = EPOLLOUT, data_fd = conn_fd c\<rparr>)]"
    by (auto simp: recv_effect_def only_recv_def)
  obtain s' where "sendCallback os (Ptr a) s1 = Ok s'"
    "trace s' = trace s1 @ [SysWrite (conn_fd c) (tx_data ?c t), SysEpollCtl EPOLL_CTL_DEL (conn_fd c) None,
      SysClose (conn_fd c)]" "conns s' = (conns s1)(a := None)" "connMap s' = (connMap s1)(conn_fd c \<mapsto> Null)"
    using sendCallback_effect [of s1 a ?c b i t os] s1 c ip by (auto simp: received_def)
  then show ?thesis using r(1) tr s1(1,3) by (auto simp: tx_data_def received_def)
qed

lemma receive_then_send:
  assumes c: "conns s a = Some c" "inEpoll c" "length (wbuffer c) = SEND_BUFFER_LENGTH" "rlen c = 0"
    and ip: "inetAddr c = Ptr b" "inets s b = Some i"
    and cs: "delivers os (conn_fd c) RECV_BUFFER_LENGTH 0 cs (kernel s)"
      "length (concat cs) < RECV_BUFFER_LENGTH"
  shows "\<exists>s' calls. andThen (recvCallback os (Ptr a) s) (sendCallback os (Ptr a)) = Ok s' \<and>
    only_recv (conn_fd c) calls \<and>
    trace s' = trace s @ calls @ [OutRecv (rx_text 0 (concat cs)),
      SysEpollCtl EPOLL_CTL_MOD (conn_fd c) (Some \<lparr>events = EPOLLOUT, data_fd = conn_fd c\<rparr>),
      SysWrite (conn_fd c) (take (length (concat cs)) (map Some (rx_text 0 (concat cs)) @ Some 0 #
        drop (Suc (length (rx_text 0 (concat cs)))) (wbuffer c))),
      SysEpollCtl EPOLL_CTL_DEL (conn_fd c) None, SysClose (conn_fd c)] \<and>
    conns s' = (conns s)(a := None) \<and> connMap s' = (connMap s)(conn_fd c \<mapsto> Null)"
  using receive_then_send_replies [OF c ip cs(1) [unfolded delivers_replies], of "length (concat cs)" "rx_message 0 (concat cs)"
      "rx_text 0 (concat cs)"] rx_message_played [of 0 cs] cstr_rx_message [of 0 "concat cs"] cs(2)
  by simp

end
