(* ===== verification/EventLoop.thy ===== *)
theory EventLoop
  imports Epoll
begin

text \<open>
  \<open>inc/EventLoop.hpp\<close>, \<open>src/EventLoop.cpp\<close>: the reactor. \<open>dispatch\<close> is the \<open>for\<close> over the ready
  connections, \<open>iteration\<close> one round of the \<open>while(true)\<close>, and \<open>start n\<close> the state after \<open>n\<close>
  rounds: the loop has no exit, so its behaviour is that of all its finite prefixes. What a stored
  callback does is the parameter \<open>run\<close>; the locale \<open>callbacks\<close> says what the loop needs of it.
\<close>

text \<open>An event loop is an epoll object without further members: its constructor runs that of \<open>Epoll\<close>,
  its destructor has an empty body and then runs that of \<open>Epoll\<close>.\<close>

definition EventLoop_ctor :: "'w os \<Rightarrow> 'w reactor \<Rightarrow> 'w reactor res" where
  "EventLoop_ctor os s = Epoll_ctor os s"

definition EventLoop_dtor :: "'w os \<Rightarrow> 'w reactor \<Rightarrow> 'w reactor" where
  "EventLoop_dtor os s = Epoll_dtor os s"

fun dispatch :: "(callback \<Rightarrow> 'w reactor \<Rightarrow> 'w reactor res) \<Rightarrow> ptr list \<Rightarrow> 'w reactor \<Rightarrow> 'w reactor res" where
  "dispatch run [] s = Ok s"
| "dispatch run (c # cs) s =
     andThen (getREvent c s) (\<lambda>e.
       if has_flag (events e) EPOLLIN
       then andThen (exeRecvCallback run c s) (dispatch run cs)
       else andThen (getREvent c s) (\<lambda>e.
         if has_flag (events e) EPOLLOUT
         then andThen (exeSendCallback run c s) (dispatch run cs)
         else dispatch run cs s))"

definition iteration :: "'w os \<Rightarrow> (callback \<Rightarrow> 'w reactor \<Rightarrow> 'w reactor res) \<Rightarrow> int \<Rightarrow>
    'w reactor \<Rightarrow> 'w reactor res" where
  "iteration os run timeout s =
     andThen (wait os timeout s) (\<lambda>(readyConns, s). dispatch run readyConns s)"

fun start :: "'w os \<Rightarrow> (callback \<Rightarrow> 'w reactor \<Rightarrow> 'w reactor res) \<Rightarrow> int \<Rightarrow> nat \<Rightarrow>
    'w reactor \<Rightarrow> 'w reactor res" where
  "start os run timeout 0 s = Ok s"
| "start os run timeout (Suc n) s = andThen (iteration os run timeout s) (start os run timeout n)"

text \<open>One round as a step of a transition system.\<close>

definition loop_step :: "'w os \<Rightarrow> (callback \<Rightarrow> 'w reactor \<Rightarrow> 'w reactor res) \<Rightarrow> int \<Rightarrow>
    'w reactor \<Rightarrow> 'w reactor \<Rightarrow> bool" where
  "loop_step os run timeout s s' \<longleftrightarrow> iteration os run timeout s = Ok s'"

lemma start_add:
  "start os run t (m + n) s = andThen (start os run t m s) (start os run t n)"
proof (induction m arbitrary: s)
  case (Suc m)
  then have "start os run t (m + n) = (\<lambda>s. andThen (start os run t m s) (start os run t n))"
    by (intro ext)
  then show ?case by (simp add: andThen_assoc)
qed simp

lemma start_snoc:
  "start os run t (Suc n) s = andThen (start os run t n s) (iteration os run t)"
proof -
  have "start os run t 1 x = iteration os run t x" for x
    by (cases "iteration os run t x") (auto simp: andThen_def split: sum.splits)
  then have "start os run t 1 = iteration os run t" by (rule ext)
  then show ?thesis using start_add [of os run t n 1 s] by simp
qed

text \<open>A round that reports one registered descriptor.\<close>

lemma iteration_one:
  assumes "connMap s f = Some (Ptr a)" and "conns s a = Some c" and "conn_fd c = f"
    and "os_epoll_wait os (epfd s) MAX_EPOLL_CONN t (kernel s) = ((1, [\<lparr>events = bits, data_fd = f\<rparr>]), w)"
  shows "iteration os run t s = dispatch run [Ptr a] (s\<lparr>kernel := w, trace := trace s @ [SysEpollWait 1],
    conns := (conns s)(a \<mapsto> c\<lparr>revent := Some \<lparr>events = bits, data_fd = f\<rparr>\<rparr>)\<rparr>)"
  using assms
  by (simp add: iteration_def wait_def sys_epoll_wait_def log_def connMap_at_def conn_exec)

text \<open>The states of the loop are the states its finite prefixes end in.\<close>

lemma start_reach:
  assumes "init s0" and "start os run t n s0 = Ok s"
  shows "reach init (loop_step os run t) s"
  using assms(2)
proof (induction n arbitrary: s)
  case 0
  then show ?case using assms(1) by auto
next
  case (Suc n)
  then obtain s1 where "start os run t n s0 = Ok s1" and "iteration os run t s1 = Ok s"
    by (auto simp only: start_snoc andThen_eq_Ok)
  then show ?case using Suc.IH by (auto simp: loop_step_def)
qed

section \<open>The loop over well-behaved callbacks\<close>

text \<open>
  What the loop needs of the callbacks, over an invariant \<open>inv\<close> of the state and a condition
  \<open>pending\<close> on a connection that waits for its turn in the current round: \<open>wait\<close> returns pending
  connections without repetition, a pending connection has its events and the callback they ask
  for, and running that callback keeps the invariant and the other connections' pendency, with
  faults in \<open>F\<close> only.
\<close>

locale callbacks =
  fixes os :: "'w os"
    and run :: "callback \<Rightarrow> 'w reactor \<Rightarrow> 'w reactor res"
    and inv :: "'w reactor \<Rightarrow> bool"
    and pending :: "'w reactor \<Rightarrow> ptr \<Rightarrow> bool"
    and F :: "fault set"
  assumes wait_pending: "inv s \<Longrightarrow>
      holds (\<lambda>(rs, s'). inv s' \<and> distinct rs \<and> (\<forall>p\<in>set rs. pending s' p)) (wait os t s)"
    and pending_revent: "inv s \<Longrightarrow> pending s p \<Longrightarrow> holds (\<lambda>e. True) (getREvent p s)"
    and run_recv: "inv s \<Longrightarrow> pending s p \<Longrightarrow>
      within F (\<lambda>s'. inv s' \<and> (\<forall>q. q \<noteq> p \<longrightarrow> pending s q \<longrightarrow> pending s' q)) (exeRecvCallback run p s)"
    and run_send: "inv s \<Longrightarrow> pending s p \<Longrightarrow> getREvent p s = Ok e \<Longrightarrow> has_flag (events e) EPOLLOUT \<Longrightarrow>
      within F (\<lambda>s'. inv s' \<and> (\<forall>q. q \<noteq> p \<longrightarrow> pending s q \<longrightarrow> pending s' q)) (exeSendCallback run p s)"
begin

lemma dispatch_within:
  "inv s \<Longrightarrow> distinct rs \<Longrightarrow> \<forall>p\<in>set rs. pending s p \<Longrightarrow> within F inv (dispatch run rs s)"
proof (induction rs arbitrary: s)
  case (Cons p rs)
  then obtain e where e: "getREvent p s = Ok e" using pending_revent by (fastforce simp: holds_iff)
  have rest: "within F inv (dispatch run rs s')"
    if "inv s' \<and> (\<forall>q. q \<noteq> p \<longrightarrow> pending s q \<longrightarrow> pending s' q)" for s'
    using that Cons.prems by (intro Cons.IH) auto
  have recv: "within F inv (andThen (exeRecvCallback run p s) (dispatch run rs))"
    using Cons.prems rest by (intro within_andThen [OF run_recv]) auto
  have send: "within F inv (andThen (exeSendCallback run p s) (dispatch run rs))"
    if "has_flag (events e) EPOLLOUT"
    using Cons.prems rest that by (intro within_andThen [OF run_send [OF _ _ e that]]) auto
  show ?case using recv send rest [of s] Cons.prems by (simp add: e)
qed simp

lemma iteration_within:
  assumes "inv s"
  shows "within F inv (iteration os run t s)"
proof -
  obtain rs s1 where "wait os t s = Ok (rs, s1)" "inv s1" "distinct rs" "\<forall>p\<in>set rs. pending s1 p"
    using wait_pending [OF assms, of t] by (auto simp: holds_iff)
  then show ?thesis using dispatch_within by (simp add: iteration_def)
qed

lemma start_within:
  "inv s \<Longrightarrow> within F inv (start os run t n s)"
  by (induction n arbitrary: s) (auto intro: within_andThen iteration_within)

text \<open>A further predicate that waiting and the callbacks keep can be added to the invariant; with it, there may
  be fewer faults.\<close>

lemma strengthened:
  assumes inv': "\<And>s. inv' s \<longleftrightarrow> inv s \<and> Q s"
    and wait: "\<And>s t rs s'. inv' s \<Longrightarrow> wait os t s = Ok (rs, s') \<Longrightarrow> Q s'"
    and recv: "\<And>s p. inv' s \<Longrightarrow> pending s p \<Longrightarrow> within G Q (exeRecvCallback run p s)"
    and send: "\<And>s p e. inv' s \<Longrightarrow> pending s p \<Longrightarrow> getREvent p s = Ok e \<Longrightarrow> has_flag (events e) EPOLLOUT \<Longrightarrow>
      within G Q (exeSendCallback run p s)"
  shows "callbacks os run inv' pending G"
proof (unfold_locales, goal_cases)
  case (1 s t)
  then show ?case using wait_pending [of s t] wait [of s t] by (auto simp: inv' holds_iff)
next
  case (2 s p)
  then show ?case using pending_revent by (simp add: inv')
next
  case (3 s p)
  then have "inv s" by (simp add: inv')
  from within_conj [OF recv [OF 3] run_recv [OF this 3(2)]] show ?case
    by (rule within_mono) (auto simp: inv')
next
  case (4 s p e)
  then have "inv s" by (simp add: inv')
  from within_conj [OF send [OF 4] run_send [OF this 4(2-4)]] show ?case
    by (rule within_mono) (auto simp: inv')
qed

lemma wait_no_fault: "inv s \<Longrightarrow> \<exists>x. wait os t s = Ok x"
  using wait_pending [of s t] by (auto simp: holds_iff)

end

sublocale callbacks \<subseteq> rounds: step_system inv "loop_step os run t" inv for t
  by unfold_locales (auto simp: loop_step_def intro: within_Ok [OF iteration_within])

end
