(* ===== verification/Test_Main.thy ===== *)
theory Test_Main
  imports Server EventLoop
begin

text \<open>
  \<open>apps/test-main.cpp\<close>: the program. It makes an event loop and a server on it, and enters the
  loop. \<open>test_main n\<close> runs the program to the end of the \<open>n\<close>-th round; \<open>loop_mem\<close> is the content
  of the server's uninitialised member (see \<open>Server_ctor\<close>), \<open>loop_obj\<close> the new event loop's address.
\<close>

definition loop_obj :: ptr where "loop_obj = Ptr 0"

definition boot :: "'w os \<Rightarrow> ptr \<Rightarrow> 'w reactor \<Rightarrow> 'w reactor res" where
  "boot os loop_mem s =
     andThen (EventLoop_ctor os s) (\<lambda>s.
     andThen (Server_ctor os loop_mem loop_obj s) (\<lambda>(server, s). Ok s))"

definition test_main :: "'w os \<Rightarrow> ptr \<Rightarrow> nat \<Rightarrow> 'w reactor \<Rightarrow> 'w reactor res" where
  "test_main os loop_mem n s =
     andThen (boot os loop_mem s) (start os (run_callback os) (-1) n)"

text \<open>The state of a process that has just started: nothing allocated, nothing registered.\<close>

definition fresh_process :: "'w \<Rightarrow> 'w reactor" where
  "fresh_process w = \<lparr>kernel = w, trace = [], inets = Map.empty, next_inet = 0,
     conns = Map.empty, next_conn = 0, epfd = -1, connMap = Map.empty\<rparr>"

text \<open>What holds when the loop is entered and is kept by its rounds holds after any number of them.\<close>

lemma test_main_inv:
  assumes "test_main os lm n p = Ok s" and "\<And>s0. boot os lm p = Ok s0 \<Longrightarrow> I s0"
    and "\<And>s0. I s0 \<Longrightarrow> within F I (start os (run_callback os) (-1) n s0)"
  shows "I s"
  using assms(1) within_Ok [OF assms(3) [OF assms(2)]] by (auto simp: test_main_def andThen_eq_Ok)

lemma test_main_0: "test_main os lm 0 p = boot os lm p"
  by (cases "boot os lm p") (auto simp: test_main_def andThen_def split: sum.splits)

end
