(* ===== verification/Lifetime.thy ===== *)
theory Lifetime
  imports Test_Main
begin

text \<open>
  Lifetime safety of the reactor: which connections exist, which of them the registry and the
  kernel know, and which callbacks they carry. \<open>reactor_inv\<close> relates the heap, \<open>connMap\<close> and the
  kernel's interest list (through the view \<open>watch\<close>), every handler keeps it, and \<open>EventLoop\<close>'s
  interface \<open>callbacks\<close> is interpreted on the server's handlers. Nothing is assumed about the
  data that arrives or about the success of any call.
\<close>

section \<open>The invariant\<close>

text \<open>A registered connection: its buffers have their size, it has been given an event, and its
  callbacks are the listening socket's or a client's, bound to the connection itself.\<close>

definition is_listener :: "nat \<Rightarrow> conn_obj \<Rightarrow> bool" where
  "is_listener a c \<longleftrightarrow> recvCb c = Some (Bound AcceptCallback (Ptr a)) \<and> sendCb c = None"

definition is_client :: "nat \<Rightarrow> conn_obj \<Rightarrow> bool" where
  "is_client a c \<longleftrightarrow> recvCb c = Some (Bound RecvCallback (Ptr a)) \<and> sendCb c = Some (Bound SendCallback (Ptr a))"

definition conn_ok :: "nat \<Rightarrow> conn_obj \<Rightarrow> bool" where
  "conn_ok a c \<longleftrightarrow> length (rbuffer c) = RECV_BUFFER_LENGTH \<and> length (wbuffer c) = SEND_BUFFER_LENGTH \<and>
     inEpoll c \<and> (is_listener a c \<or> is_client a c)"

text \<open>A client with something to send: \<open>strcpy\<close> finds the end of the text and the length is that of
  a part of the buffer. It is sendable once it has also been armed, that is, been given \<open>EPOLLOUT\<close>
  as its event.\<close>

definition echoable :: "conn_obj \<Rightarrow> bool" where
  "echoable c \<longleftrightarrow> sendCb c \<noteq> None \<and> 0 \<le> rlen c \<and> rlen c \<le> int RECV_BUFFER_LENGTH \<and>
     (\<exists>bs. cstr (rbuffer c) = Ok bs)"

definition armed :: "conn_obj \<Rightarrow> bool" where
  "armed c \<longleftrightarrow> (\<exists>e. event c = Some e \<and> has_flag (events e) EPOLLOUT)"

definition sendable :: "conn_obj \<Rightarrow> bool" where
  "sendable c \<longleftrightarrow> echoable c \<and> armed c"

lemmas sendable_defs = sendable_def echoable_def armed_def

text \<open>Every connection owns a live address of its own.\<close>

definition inets_owned :: "'w reactor \<Rightarrow> bool" where
  "inets_owned s \<longleftrightarrow>
     (\<forall>a c. conns s a = Some c \<longrightarrow> (\<exists>b i. inetAddr c = Ptr b \<and> inets s b = Some i)) \<and>
     (\<forall>a a' c c'. conns s a = Some c \<longrightarrow> conns s a' = Some c' \<longrightarrow> inetAddr c = inetAddr c' \<longrightarrow> a = a')"

text \<open>The registry holds no dangling pointer, and files each connection under its descriptor.\<close>

definition map_ok :: "'w reactor \<Rightarrow> bool" where
  "map_ok s \<longleftrightarrow> (\<forall>f a. connMap s f = Some (Ptr a) \<longrightarrow>
     (\<exists>c. conns s a = Some c \<and> conn_fd c = f \<and> conn_ok a c))"

text \<open>Whatever the kernel may report is in the registry.\<close>

definition watch_ok :: "'w watch \<Rightarrow> 'w reactor \<Rightarrow> bool" where
  "watch_ok watch s \<longleftrightarrow> (\<forall>f e. watch (kernel s) f = Some e \<longrightarrow> 0 \<le> f \<and> data_fd e = f \<and>
     (\<exists>a c. connMap s f = Some (Ptr a) \<and> conns s a = Some c \<and>
       (has_flag (events e) EPOLLOUT \<longrightarrow> sendable c)))"

definition reactor_inv :: "'w watch \<Rightarrow> 'w reactor \<Rightarrow> bool" where
  "reactor_inv watch s \<longleftrightarrow> inet_wf s \<and> conn_wf s \<and> inets_owned s \<and> map_ok s \<and> watch_ok watch s"

text \<open>A connection that \<open>wait\<close> reported and that has not been served yet.\<close>

definition pending :: "'w watch \<Rightarrow> 'w reactor \<Rightarrow> ptr \<Rightarrow> bool" where
  "pending watch s p \<longleftrightarrow> (\<exists>a c e. p = Ptr a \<and> conns s a = Some c \<and> connMap s (conn_fd c) = Some p \<and>
     watch (kernel s) (conn_fd c) \<noteq> None \<and> revent c = Some e \<and>
     (has_flag (events e) EPOLLOUT \<longrightarrow> sendable c))"

lemmas inv_defs = reactor_inv_def inets_owned_def map_ok_def watch_ok_def
lemmas wf_defs = inet_wf_def conn_wf_def

lemma pendingE:
  assumes "reactor_inv watch s" and "pending watch s p"
  obtains a c e where "p = Ptr a" "conns s a = Some c" "connMap s (conn_fd c) = Some (Ptr a)"
    "watch (kernel s) (conn_fd c) \<noteq> None" "revent c = Some e"
    "has_flag (events e) EPOLLOUT \<longrightarrow> sendable c" "conn_ok a c"
  using assms by (force simp: pending_def reactor_inv_def map_ok_def)

text \<open>Steps that leave memory and interest list alone keep everything.\<close>

lemma inv_cong:
  assumes "watch (kernel s') = watch (kernel s)" "conns s' = conns s" "inets s' = inets s"
    "next_conn s' = next_conn s" "next_inet s' = next_inet s" "connMap s' = connMap s"
  shows "reactor_inv watch s' = reactor_inv watch s" and "pending watch s' p = pending watch s p"
  using assms by (simp_all add: inv_defs wf_defs pending_def)

lemma mem_cong:
  assumes "conns s' = conns s" "inets s' = inets s" "next_conn s' = next_conn s"
    "next_inet s' = next_inet s" "connMap s' = connMap s"
  shows "inet_wf s' = inet_wf s" "conn_wf s' = conn_wf s" "inets_owned s' = inets_owned s" "map_ok s' = map_ok s"
  using assms by (simp_all add: inets_owned_def map_ok_def wf_defs)

text \<open>Replacing one connection by a version of it that differs in buffers and events.\<close>

definition same_identity :: "conn_obj \<Rightarrow> conn_obj \<Rightarrow> bool" where
  "same_identity c c' \<longleftrightarrow> conn_fd c' = conn_fd c \<and> inetAddr c' = inetAddr c \<and> inEpoll c' = inEpoll c \<and>
     recvCb c' = recvCb c \<and> sendCb c' = sendCb c \<and>
     length (rbuffer c') = length (rbuffer c) \<and> length (wbuffer c') = length (wbuffer c)"

lemma has_flag_bits [simp]:
  "has_flag EPOLLOUT EPOLLOUT" "\<not> has_flag (EPOLLET OR EPOLLIN) EPOLLOUT" "\<not> has_flag (EPOLLIN OR EPOLLET) EPOLLOUT"
  by (simp_all add: has_flag_def flag_defs)

lemma armed_received [simp]: "armed (received c b n)"
  by (simp add: armed_def received_def)

lemma same_identity_ok: "same_identity c c' \<Longrightarrow> conn_ok a c' = conn_ok a c"
  by (simp add: same_identity_def conn_ok_def is_listener_def is_client_def)

lemma inv_update:
  assumes "reactor_inv watch s" and "conns s a = Some c" and "same_identity c c'"
    and "sendable c \<Longrightarrow> sendable c'"
  shows "reactor_inv watch (s\<lparr>conns := (conns s)(a \<mapsto> c')\<rparr>)"
proof -
  have "inets_owned (s\<lparr>conns := (conns s)(a \<mapsto> c')\<rparr>)"
    using assms(1-3) unfolding reactor_inv_def inets_owned_def same_identity_def
    by (auto split: if_splits)
  moreover have "map_ok (s\<lparr>conns := (conns s)(a \<mapsto> c')\<rparr>)"
    using assms(1-3) same_identity_ok [OF assms(3)] unfolding reactor_inv_def map_ok_def same_identity_def
    by (auto split: if_splits) (metis option.inject)+
  moreover have "watch_ok watch (s\<lparr>conns := (conns s)(a \<mapsto> c')\<rparr>)"
    using assms(1,2,4) unfolding reactor_inv_def watch_ok_def by simp (metis option.inject)
  ultimately show ?thesis
    using assms(1,2) by (auto simp: reactor_inv_def wf_defs)
qed

lemma pending_update:
  assumes "pending watch s q" and "q \<noteq> Ptr a"
  shows "pending watch (s\<lparr>conns := (conns s)(a \<mapsto> c')\<rparr>) q"
  using assms by (auto simp: pending_def)

section \<open>Waiting\<close>

text \<open>Storing the reported events of one registered connection.\<close>

lemma setREvent_pending:
  assumes "reactor_inv watch s" and "watch (kernel s) f = Some e" and "data_fd ev = data_fd e"
    and "events ev AND NOT (reportable (events e)) = 0"
  shows "\<exists>a c s'. connMap_at (data_fd ev) s = (Ptr a, s) \<and> conns s a = Some c \<and> conn_fd c = f \<and>
     setREvent (Ptr a) (events ev) s = Ok s' \<and> s' = s\<lparr>conns := (conns s)(a \<mapsto>
       c\<lparr>revent := Some \<lparr>events = events ev, data_fd = f\<rparr>\<rparr>)\<rparr> \<and>
     reactor_inv watch s' \<and> pending watch s' (Ptr a)"
proof -
  from assms(1,2) obtain a c where c: "data_fd e = f" "connMap s f = Some (Ptr a)" "conns s a = Some c"
    "has_flag (events e) EPOLLOUT \<longrightarrow> sendable c" "conn_fd c = f"
    unfolding reactor_inv_def watch_ok_def map_ok_def by fastforce
  let ?c = "c\<lparr>revent := Some \<lparr>events = events ev, data_fd = f\<rparr>\<rparr>"
  have "reactor_inv watch (s\<lparr>conns := (conns s)(a \<mapsto> ?c)\<rparr>)"
    by (rule inv_update [OF assms(1) c(3)]) (simp_all add: same_identity_def sendable_defs)
  moreover have "pending watch (s\<lparr>conns := (conns s)(a \<mapsto> ?c)\<rparr>) (Ptr a)"
    using c assms(2) has_flag_reportable [OF assms(4), of EPOLLOUT]
    by (auto simp: pending_def sendable_defs)
  ultimately show ?thesis using c assms(3)
    by (auto simp: connMap_at_def conn_exec)
qed

lemma wait_loop_pending:
  assumes "reactor_inv watch s" and "distinct fds"
    and "list_all2 (\<lambda>f ev. \<exists>e. watch (kernel s) f = Some e \<and> data_fd ev = data_fd e \<and>
          events ev AND NOT (reportable (events e)) = 0) fds evs"
    and "distinct rs" and "\<forall>p\<in>set rs. pending watch s p"
    and "\<forall>a c. Ptr a \<in> set rs \<longrightarrow> conns s a = Some c \<longrightarrow> conn_fd c \<notin> set fds"
  shows "holds (\<lambda>(rs', s'). reactor_inv watch s' \<and> distinct rs' \<and> (\<forall>p\<in>set rs'. pending watch s' p) \<and>
     kernel s' = kernel s \<and> length rs' = length rs + length evs) (wait_loop evs rs s)"
  using assms
proof (induction evs arbitrary: fds rs s)
  case (Cons ev evs)
  then obtain f fds' e where fds: "fds = f # fds'" and e: "watch (kernel s) f = Some e"
    "data_fd ev = data_fd e" "events ev AND NOT (reportable (events e)) = 0"
    by (auto simp: list_all2_Cons2)
  obtain a c s1 where c: "connMap_at (data_fd ev) s = (Ptr a, s)" "conns s a = Some c" "conn_fd c = f"
    "setREvent (Ptr a) (events ev) s = Ok s1"
    and s1: "s1 = s\<lparr>conns := (conns s)(a \<mapsto> c\<lparr>revent := Some \<lparr>events = events ev, data_fd = f\<rparr>\<rparr>)\<rparr>"
    and inv1: "reactor_inv watch s1" "pending watch s1 (Ptr a)"
    using setREvent_pending [OF Cons.prems(1) e] by blast
  have new: "Ptr a \<notin> set rs" using Cons.prems(6) c(2,3) fds by auto
  have "holds (\<lambda>(rs', s'). reactor_inv watch s' \<and> distinct rs' \<and> (\<forall>p\<in>set rs'. pending watch s' p) \<and>
     kernel s' = kernel s1 \<and> length rs' = length (rs @ [Ptr a]) + length evs) (wait_loop evs (rs @ [Ptr a]) s1)"
  proof (rule Cons.IH [where fds = fds'])
    show "\<forall>p\<in>set (rs @ [Ptr a]). pending watch s1 p"
      using Cons.prems(5) inv1(2) new s1 by (auto intro!: pending_update)
    show "\<forall>b d. Ptr b \<in> set (rs @ [Ptr a]) \<longrightarrow> conns s1 b = Some d \<longrightarrow> conn_fd d \<notin> set fds'"
      using Cons.prems(2,6) c(3) fds new s1 by (auto split: if_splits)
  qed (use inv1 Cons.prems new fds s1 in auto)
  then show ?case using c(1,4) s1 by simp
qed simp

lemma wait_pending:
  assumes "epoll_contract os watch" and "reactor_inv watch s"
  shows "holds (\<lambda>(rs, s'). reactor_inv watch s' \<and> distinct rs \<and> (\<forall>p\<in>set rs. pending watch s' p) \<and>
     length rs \<le> MAX_EPOLL_CONN) (wait os t s)"
proof -
  obtain n evs s1 where w: "sys_epoll_wait os (epfd s) MAX_EPOLL_CONN t s = ((n, evs), s1)"
    by (metis surj_pair)
  then have os: "os_epoll_wait os (epfd s) MAX_EPOLL_CONN t (kernel s) = ((n, evs), kernel s1)"
    by (auto simp: sys_epoll_wait_def split: prod.splits)
  have k: "watch (kernel s1) = watch (kernel s)" and
    n: "n = -1 \<and> evs = [] \<or> n = int (length evs) \<and> length evs \<le> MAX_EPOLL_CONN \<and> wait_report (watch (kernel s)) evs"
    using assms(1) os unfolding epoll_contract_def wait_ok_def by blast+
  have "conns s1 = conns s" "inets s1 = inets s" "next_conn s1 = next_conn s" "next_inet s1 = next_inet s"
    "connMap s1 = connMap s"
    using w by (auto simp: sys_epoll_wait_def log_def split: prod.splits)
  note inv1 = inv_cong(1) [OF k this, THEN iffD2, OF assms(2)]
  show ?thesis using n
  proof
    assume "n = -1 \<and> evs = []"
    then show ?thesis using inv1 w by (simp add: wait_def)
  next
    assume n: "n = int (length evs) \<and> length evs \<le> MAX_EPOLL_CONN \<and> wait_report (watch (kernel s)) evs"
    then obtain fds where "distinct fds" and "list_all2 (\<lambda>f ev. \<exists>e. watch (kernel s1) f = Some e \<and>
      data_fd ev = data_fd e \<and> events ev AND NOT (reportable (events e)) = 0) fds evs"
      by (auto simp: wait_report_def k)
    from wait_loop_pending [OF inv1 this, of "[]"] n w show ?thesis
      by (auto simp: wait_def holds_iff)
  qed
qed

section \<open>The handlers\<close>

text \<open>
  Every handler is shown to be \<open>safe\<close>: it keeps the invariant and the pendency of the other
  connections, and stops with nothing but a fault in \<open>F\<close>.
\<close>

abbreviation safe :: "'w watch \<Rightarrow> fault set \<Rightarrow> ptr \<Rightarrow> 'w reactor \<Rightarrow> 'w reactor res \<Rightarrow> bool" where
  "safe watch F p s m \<equiv>
     within F (\<lambda>s'. reactor_inv watch s' \<and> (\<forall>q. q \<noteq> p \<longrightarrow> pending watch s q \<longrightarrow> pending watch s' q)) m"

text \<open>A new client joins: its object and address are fresh, and its descriptor is not registered.\<close>

definition client_conn :: "int \<Rightarrow> ptr \<Rightarrow> nat \<Rightarrow> conn_obj" where
  "client_conn r ip a = (Connection_fd r ip)\<lparr>inEpoll := True,
     event := Some \<lparr>events = EPOLLET OR EPOLLIN, data_fd = r\<rparr>,
     recvCb := Some (Bound RecvCallback (Ptr a)), sendCb := Some (Bound SendCallback (Ptr a))\<rparr>"

lemma client_conn_sel [simp]:
  "conn_fd (client_conn r ip a) = r" "inetAddr (client_conn r ip a) = ip"
  "conn_ok a (client_conn r ip a)" "rlen (client_conn r ip a) = 0" "inEpoll (client_conn r ip a)"
  "wbuffer (client_conn r ip a) = replicate SEND_BUFFER_LENGTH None"
  "event (client_conn r ip a) = Some \<lparr>events = EPOLLET OR EPOLLIN, data_fd = r\<rparr>"
  "recvCb (client_conn r ip a) = Some (Bound RecvCallback (Ptr a))"
  "sendCb (client_conn r ip a) = Some (Bound SendCallback (Ptr a))"
  by (simp_all add: client_conn_def Connection_fd_def Connection_default_def conn_ok_def is_client_def
      RECV_BUFFER_LENGTH_def SEND_BUFFER_LENGTH_def)

lemma acceptCallback_effect:
  assumes "conns s a = Some c"
  shows "\<exists>r fl i s1 s2 s'. acceptCallback os (Ptr a) s = Ok s' \<and>
    r = fst (fst (os_accept os (conn_fd c) (kernel s))) \<and>
    kernel (s1 :: 'w reactor) = snd (os_accept os (conn_fd c) (kernel s)) \<and>
    kernel (s2 :: 'w reactor) = kernel (sys_setfl_nonblock os r s1) \<and>
    kernel s' = kernel (sys_epoll_ctl os (epfd s) EPOLL_CTL_ADD r
      (Some \<lparr>events = EPOLLET OR EPOLLIN, data_fd = r\<rparr>) s2) \<and>
    trace s' = trace s @ [SysAccept (conn_fd c) r, OutClient r, SysSetFl r fl,
      SysEpollCtl EPOLL_CTL_ADD r (Some \<lparr>events = EPOLLET OR EPOLLIN, data_fd = r\<rparr>)] \<and>
    conns s' = (conns s)(next_conn s \<mapsto> client_conn r (Ptr (next_inet s)) (next_conn s)) \<and>
    next_conn s' = Suc (next_conn s) \<and>
    inets s' = (inets s)(next_inet s \<mapsto> i) \<and> next_inet s' = Suc (next_inet s) \<and>
    connMap s' = (connMap s)(r \<mapsto> Ptr (next_conn s)) \<and> epfd s' = epfd s"
proof -
  obtain r i s1 where s1: "Socket_accept os (Ptr a) s = Ok (Ptr (next_conn s), s1)"
    "r = fst (fst (os_accept os (conn_fd c) (kernel s)))"
    "kernel s1 = snd (os_accept os (conn_fd c) (kernel s))"
    "trace s1 = trace s @ [SysAccept (conn_fd c) r]"
    "conns s1 = (conns s)(next_conn s \<mapsto> Connection_fd r (Ptr (next_inet s)))"
    "next_conn s1 = Suc (next_conn s)" "inets s1 = (inets s)(next_inet s \<mapsto> i)"
    "next_inet s1 = Suc (next_inet s)" "epfd s1 = epfd s" "connMap s1 = connMap s"
    using Socket_accept_Ok [OF assms, of os] by (metis reactor_more)
  obtain fl s2 where s2: "sys_setfl_nonblock os r (log (OutClient r) s1) = s2"
    "trace s2 = trace s1 @ [OutClient r, SysSetFl r fl]"
    using setfl_trace [of os r "log (OutClient r) s1"] by auto
  have fr: "conns s2 = conns s1" "next_conn s2 = next_conn s1" "inets s2 = inets s1"
    "next_inet s2 = next_inet s1" "epfd s2 = epfd s1" "connMap s2 = connMap s1"
    using s2(1) by auto
  define ev where "ev = \<lparr>events = EPOLLET OR EPOLLIN, data_fd = r\<rparr>"
  define s3 where "s3 = s2\<lparr>conns := (conns s2)(next_conn s \<mapsto>
    (Connection_fd r (Ptr (next_inet s)))\<lparr>event := Some ev\<rparr>)\<rparr>"
  define s4 where "s4 = sys_epoll_ctl os (epfd s) EPOLL_CTL_ADD r (Some ev) s3"
  have fr4: "conns s4 = conns s3" "next_conn s4 = next_conn s1" "inets s4 = inets s1"
    "next_inet s4 = next_inet s1" "connMap s4 = connMap s1" "epfd s4 = epfd s1"
    by (simp_all add: s4_def s3_def fr)
  have tr4: "trace s4 = trace s2 @ [SysEpollCtl EPOLL_CTL_ADD r (Some ev)]"
    by (simp add: s4_def s3_def)
  let ?s' = "s4\<lparr>conns := (conns s)(next_conn s \<mapsto> client_conn r (Ptr (next_inet s)) (next_conn s)),
    connMap := (connMap s)(r \<mapsto> Ptr (next_conn s))\<rparr>"
  have "acceptCallback os (Ptr a) s = Ok ?s'"
    using s1 s2 fr fr4
    by (simp add: acceptCallback_def conn_exec Let_def epoll_callbacks Connection_fd_def Connection_default_def
        updateConnection_def client_conn_def s4_def s3_def ev_def)
  then show ?thesis
    using s1 s2 fr4 tr4 s3_def s4_def
    by (intro exI [of _ r] exI [of _ fl] exI [of _ i] exI [of _ "log (OutClient r) s1"] exI [of _ s3] exI [of _ ?s'])
      (simp add: ev_def)
qed

lemma acceptCallback_safe:
  assumes K: "epoll_contract os watch" and inv: "reactor_inv watch s" and c: "conns s a = Some c"
  shows "safe watch {} (Ptr a) s (acceptCallback os (Ptr a) s)"
proof -
  obtain r i s1 s2 s' where run: "acceptCallback os (Ptr a) s = Ok s'"
    and r: "r = fst (fst (os_accept os (conn_fd c) (kernel s)))"
    and k: "kernel (s1 :: 'a reactor) = snd (os_accept os (conn_fd c) (kernel s))"
      "kernel (s2 :: 'a reactor) = kernel (sys_setfl_nonblock os r s1)"
      "kernel s' = kernel (sys_epoll_ctl os (epfd s) EPOLL_CTL_ADD r
         (Some \<lparr>events = EPOLLET OR EPOLLIN, data_fd = r\<rparr>) s2)"
    and m: "conns s' = (conns s)(next_conn s \<mapsto> client_conn r (Ptr (next_inet s)) (next_conn s))"
      "next_conn s' = Suc (next_conn s)" "inets s' = (inets s)(next_inet s \<mapsto> i)"
      "next_inet s' = Suc (next_inet s)" "connMap s' = (connMap s)(r \<mapsto> Ptr (next_conn s))"
    using acceptCallback_effect [OF c, of os] by blast
  obtain r' ad sz w' where acc: "os_accept os (conn_fd c) (kernel s) = ((r', ad, sz), w')" by (metis surj_pair)
  have w1: "watch (kernel s1) = watch (kernel s)" and free: "r = -1 \<or> watch (kernel s) r = None"
    using watch_accept [OF K acc] k(1) r acc by auto
  have "watch (kernel s) (-1) = None"
    using inv unfolding reactor_inv_def watch_ok_def by (metis not_None_eq neg_0_le_iff_le not_one_le_zero)
  with free have unreg: "watch (kernel s) r = None" by auto
  have "watch (kernel s2) = watch (kernel s)" by (simp add: k(2) w1 watch_frame(3) [OF K])
  then have w: "watch (kernel s') = watch (kernel s) \<or> 0 \<le> r \<and>
    watch (kernel s') = (watch (kernel s))(r \<mapsto> \<lparr>events = EPOLLET OR EPOLLIN, data_fd = r\<rparr>)"
    using watch_ctl [OF K, of "epfd s" EPOLL_CTL_ADD r "Some \<lparr>events = EPOLLET OR EPOLLIN, data_fd = r\<rparr>" s2] k(3)
    by auto
  have fresh: "conns s (next_conn s) = None" "inets s (next_inet s) = None"
    using inv by (auto simp: reactor_inv_def wf_defs)
  have other: "inetAddr d \<noteq> Ptr (next_inet s)" if "conns s b = Some d" for b d
    using inv fresh(2) that unfolding reactor_inv_def inets_owned_def by fastforce
  have "inets_owned s'"
    using inv fresh unfolding reactor_inv_def inets_owned_def m
    by (auto split: if_splits dest: other other [THEN not_sym]) (metis option.distinct(1))
  moreover have "map_ok s'"
    using inv fresh unfolding reactor_inv_def map_ok_def m
    by (auto split: if_splits) (metis option.distinct(1))+
  moreover have "watch_ok watch s'"
    using inv fresh w unreg unfolding reactor_inv_def watch_ok_def m
    by (auto simp: has_flag_def flag_defs split: if_splits) (metis option.distinct(1))+
  moreover have "inet_wf s'" "conn_wf s'"
    using inv unfolding reactor_inv_def wf_defs m by auto
  moreover have "pending watch s' q" if "pending watch s q" for q
    using that unreg w fresh unfolding pending_def m by (fastforce split: if_splits)
  ultimately show ?thesis by (simp add: run reactor_inv_def)
qed

text \<open>A client whose connection is rewritten and whose registration is changed, if the call succeeds.\<close>

lemma inv_rearm:
  assumes inv: "reactor_inv watch s" and c: "conns s a = Some c" "connMap s (conn_fd c) = Some (Ptr a)"
    and c': "same_identity c c'" "sendable c'"
    and m: "conns s' = (conns s)(a \<mapsto> c')" "inets s' = inets s" "next_conn s' = next_conn s"
      "next_inet s' = next_inet s" "connMap s' = connMap s"
    and w: "watch (kernel s') = watch (kernel s) \<or>
      0 \<le> conn_fd c \<and> watch (kernel s') = (watch (kernel s))(conn_fd c \<mapsto> ev)" "data_fd ev = conn_fd c"
  shows "reactor_inv watch s' \<and> (\<forall>q. q \<noteq> Ptr a \<longrightarrow> pending watch s q \<longrightarrow> pending watch s' q)"
proof -
  have inv0: "reactor_inv watch (s\<lparr>conns := (conns s)(a \<mapsto> c')\<rparr>)"
    by (rule inv_update [OF inv c(1) c'(1)]) (rule c'(2))
  have "inet_wf s'" "conn_wf s'" "inets_owned s'" "map_ok s'"
    using inv0 mem_cong [of s' "s\<lparr>conns := (conns s)(a \<mapsto> c')\<rparr>"] m
    by (simp_all add: reactor_inv_def)
  moreover have "watch_ok watch s'"
    unfolding watch_ok_def
  proof (intro allI impI)
    fix f e
    assume e: "watch (kernel s') f = Some e"
    show "0 \<le> f \<and> data_fd e = f \<and> (\<exists>a c. connMap s' f = Some (Ptr a) \<and> conns s' a = Some c \<and>
        (has_flag (events e) EPOLLOUT \<longrightarrow> sendable c))"
    proof (cases "watch (kernel s) f = Some e")
      case True
      then show ?thesis using inv0 by (simp add: reactor_inv_def watch_ok_def m)
    next
      case False
      then have "f = conn_fd c \<and> e = ev \<and> 0 \<le> f" using w(1) e by (auto split: if_splits)
      then show ?thesis using c(2) c'(2) w(2) by (simp add: m)
    qed
  qed
  moreover have "pending watch s' q" if "q \<noteq> Ptr a" "pending watch s q" for q
  proof -
    have "watch (kernel s) f \<noteq> None \<Longrightarrow> watch (kernel s') f \<noteq> None" for f using w(1) by auto
    then show ?thesis using that by (auto simp: pending_def m)
  qed
  ultimately show ?thesis by (simp add: reactor_inv_def)
qed

lemma recvCallback_safe:
  assumes K: "epoll_contract os watch" and inv: "reactor_inv watch s"
    and c: "conns s a = Some c" "connMap s (conn_fd c) = Some (Ptr a)" "is_client a c"
  shows "safe watch {OutOfBounds} (Ptr a) s (recvCallback os (Ptr a) s)"
proof -
  have ok: "conn_ok a c" using inv c by (force simp: reactor_inv_def map_ok_def)
  have "within {OutOfBounds} (\<lambda>s'. \<exists>b n str. recv_effect os (\<lambda>w. watch w = watch (kernel s)) a c s s' b n str)
    (recvCallback os (Ptr a) s)"
    using ok by (intro recvCallback_effect c) (auto simp: conn_ok_def watch_recv [OF K])
  then show ?thesis
  proof (rule within_mono)
    fix s'
    assume "\<exists>b n str. recv_effect os (\<lambda>w. watch w = watch (kernel s)) a c s s' b n str"
    then obtain b n str where eff: "recv_effect os (\<lambda>w. watch w = watch (kernel s)) a c s s' b n str" by blast
    let ?c = "received c b n" and ?ev = "\<lparr>events = EPOLLOUT, data_fd = conn_fd c\<rparr>"
    from eff obtain s1 where s1: "watch (kernel s1) = watch (kernel s)"
      "kernel s' = kernel (sys_epoll_ctl os (epfd s) EPOLL_CTL_MOD (conn_fd c) (Some ?ev) (s1 :: 'a reactor))"
      by (auto simp: recv_effect_def)
    have w: "watch (kernel s') = watch (kernel s) \<or>
      0 \<le> conn_fd c \<and> watch (kernel s') = (watch (kernel s))(conn_fd c \<mapsto> ?ev)"
      using watch_ctl [OF K, of "epfd s" EPOLL_CTL_MOD "conn_fd c" "Some ?ev" s1] s1 by auto
    have m: "conns s' = (conns s)(a \<mapsto> ?c)" "inets s' = inets s" "next_conn s' = next_conn s"
      "next_inet s' = next_inet s" "connMap s' = connMap s"
      using eff by (auto simp: recv_effect_def)
    have same: "same_identity c ?c" and send: "sendable ?c"
      using eff ok c(3) by (auto simp: recv_effect_def same_identity_def received_def conn_ok_def
          sendable_defs is_client_def)
    show "reactor_inv watch s' \<and> (\<forall>q. q \<noteq> Ptr a \<longrightarrow> pending watch s q \<longrightarrow> pending watch s' q)"
      by (rule inv_rearm [OF inv c(1,2) same send m w]) simp
  qed
qed

lemma sendCallback_safe:
  assumes K: "epoll_contract os watch" and inv: "reactor_inv watch s"
    and c: "conns s a = Some c" "connMap s (conn_fd c) = Some (Ptr a)" "sendable c"
  shows "safe watch {} (Ptr a) s (sendCallback os (Ptr a) s)"
proof -
  have ok: "conn_ok a c" using inv c by (force simp: reactor_inv_def map_ok_def)
  obtain b i where ip: "inetAddr c = Ptr b" "inets s b = Some i"
    using inv c(1) unfolding reactor_inv_def inets_owned_def by blast
  obtain str where str: "cstr (rbuffer c) = Ok str" using c(3) by (auto simp: sendable_defs)
  obtain s1 s2 s3 s' where run: "sendCallback os (Ptr a) s = Ok s'"
    and k: "kernel (s1 :: 'a reactor) = kernel s"
      "kernel (s2 :: 'a reactor) = kernel (sys_write os (conn_fd c) (tx_data c str) s1)"
      "kernel (s3 :: 'a reactor) = kernel (sys_epoll_ctl os (epfd s) EPOLL_CTL_DEL (conn_fd c) None s2)"
      "kernel s' = kernel (sys_close os (conn_fd c) s3)"
    and m: "conns s' = (conns s)(a := None)" "inets s' = (inets s)(b := None)"
      "connMap s' = (connMap s)(conn_fd c \<mapsto> Null)" "next_conn s' = next_conn s" "next_inet s' = next_inet s"
    using sendCallback_effect [OF c(1) _ ip _ _ str, of os] ok c(3)
    unfolding conn_ok_def sendable_defs by blast
  have w: "watch (kernel s') = (watch (kernel s))(conn_fd c := None)"
    using watch_ctl [OF K, of "epfd s" EPOLL_CTL_DEL "conn_fd c" None s2]
    by (auto simp: k watch_frame(2,4) [OF K])
  have only: "f = conn_fd c" if "connMap s f = Some (Ptr a)" for f
    using inv that c(1) by (force simp: reactor_inv_def map_ok_def)
  have "inets_owned s'"
    using inv c(1) ip unfolding reactor_inv_def inets_owned_def m by (auto split: if_splits) metis+
  moreover have "map_ok s'"
    using inv only unfolding reactor_inv_def map_ok_def m by (auto split: if_splits)
  moreover have "watch_ok watch s'"
    using inv only unfolding reactor_inv_def watch_ok_def m w by (auto split: if_splits) metis
  moreover have "inet_wf s'" "conn_wf s'"
    using inv unfolding reactor_inv_def wf_defs m by auto
  moreover have "pending watch s' q" if "q \<noteq> Ptr a" "pending watch s q" for q
    using that inv c(1,2) unfolding pending_def m w by fastforce
  ultimately show ?thesis by (simp add: run reactor_inv_def)
qed

section \<open>The event loop on the server's handlers\<close>

definition served :: "'w os \<Rightarrow> 'w watch \<Rightarrow> 'w reactor \<Rightarrow> bool" where
  "served os watch s \<longleftrightarrow> epoll_contract os watch \<and> reactor_inv watch s"

text \<open>Which handler a pending connection runs.\<close>

lemma recv_handler:
  assumes inv: "reactor_inv watch s" and p: "pending watch s p"
  obtains (client) a c where "p = Ptr a" "conns s a = Some c" "connMap s (conn_fd c) = Some (Ptr a)" "conn_ok a c"
      "is_client a c" "exeRecvCallback (run_callback os) p s = recvCallback os (Ptr a) s"
  | (listener) a c where "p = Ptr a" "conns s a = Some c" "connMap s (conn_fd c) = Some (Ptr a)" "conn_ok a c"
      "is_listener a c" "exeRecvCallback (run_callback os) p s = acceptCallback os (Ptr a) s"
proof -
  obtain a c where c: "p = Ptr a" "conns s a = Some c" "connMap s (conn_fd c) = Some (Ptr a)" "conn_ok a c"
    using pendingE [OF inv p] by metis
  then consider "is_client a c" | "is_listener a c" by (auto simp: conn_ok_def)
  then show ?thesis
  proof cases
    case 1
    with c show ?thesis
      by (intro client) (auto simp: exeRecvCallback_def read_conn_def is_client_def run_callback_def)
  next
    case 2
    with c show ?thesis
      by (intro listener) (auto simp: exeRecvCallback_def read_conn_def is_listener_def run_callback_def)
  qed
qed

lemma send_handler:
  assumes inv: "reactor_inv watch s" and p: "pending watch s p"
    and e: "getREvent p s = Ok e" "has_flag (events e) EPOLLOUT"
  obtains a c where "p = Ptr a" "conns s a = Some c" "connMap s (conn_fd c) = Some (Ptr a)" "conn_ok a c"
    "is_client a c" "sendable c" "exeSendCallback (run_callback os) p s = sendCallback os (Ptr a) s"
proof -
  obtain a c e' where c: "p = Ptr a" "conns s a = Some c" "connMap s (conn_fd c) = Some (Ptr a)"
    "conn_ok a c" "revent c = Some e'" "has_flag (events e') EPOLLOUT \<longrightarrow> sendable c"
    using pendingE [OF inv p] by metis
  then have send: "sendable c" using e by (simp add: conn_exec)
  then have client: "is_client a c" using c(4) by (auto simp: conn_ok_def sendable_defs is_listener_def)
  then have "exeSendCallback (run_callback os) p s = sendCallback os (Ptr a) s"
    using c by (simp add: exeSendCallback_def read_conn_def is_client_def run_callback_def)
  with that c(1-4) client send show ?thesis by blast
qed

lemma run_recv_safe:
  assumes "served os watch s" and "pending watch s p"
  shows "safe watch {OutOfBounds} p s (exeRecvCallback (run_callback os) p s)"
proof -
  have K: "epoll_contract os watch" and inv: "reactor_inv watch s" using assms by (auto simp: served_def)
  from inv assms(2) show ?thesis
  proof (cases rule: recv_handler [where os = os])
    case (client a c)
    then show ?thesis using recvCallback_safe [OF K inv client(2,3,5)] by simp
  next
    case (listener a c)
    then show ?thesis using acceptCallback_safe [OF K inv listener(2)] by (auto elim: within_weaken)
  qed
qed

lemma run_send_safe:
  assumes "served os watch s" and "pending watch s p" and "getREvent p s = Ok e" and "has_flag (events e) EPOLLOUT"
  shows "safe watch {OutOfBounds} p s (exeSendCallback (run_callback os) p s)"
proof -
  have K: "epoll_contract os watch" and inv: "reactor_inv watch s" using assms by (auto simp: served_def)
  from inv assms(2-4) show ?thesis
  proof (cases rule: send_handler [where os = os])
    case (1 a c)
    then show ?thesis using sendCallback_safe [OF K inv 1(2,3,6)] by (auto elim: within_weaken)
  qed
qed

interpretation server: callbacks os "run_callback os" "served os watch" "pending watch" "{OutOfBounds}"
  for os watch
proof (unfold_locales, goal_cases)
  case (1 s t)
  then show ?case using wait_pending [of os watch s t] by (auto simp: served_def holds_iff)
next
  case (2 s p)
  then show ?case by (auto simp: served_def getREvent_def read_conn_def initialised_def elim: pendingE)
next
  case (3 s p)
  then show ?case using run_recv_safe [OF 3]
    by (auto simp: served_def elim: within_weaken)
next
  case (4 s p e)
  then show ?case using run_send_safe [OF 4]
    by (auto simp: served_def elim: within_weaken)
qed

section \<open>Starting up\<close>

definition listener_conn :: "int \<Rightarrow> ptr \<Rightarrow> nat \<Rightarrow> conn_obj" where
  "listener_conn f ip a = (Connection_fd f ip)\<lparr>inEpoll := True,
     event := Some \<lparr>events = EPOLLIN OR EPOLLET, data_fd = f\<rparr>,
     recvCb := Some (Bound AcceptCallback (Ptr a))\<rparr>"

lemma listener_conn_sel [simp]:
  "conn_fd (listener_conn f ip a) = f" "inetAddr (listener_conn f ip a) = ip"
  "conn_ok a (listener_conn f ip a)" "recvCb (listener_conn f ip a) = Some (Bound AcceptCallback (Ptr a))"
  by (simp_all add: listener_conn_def Connection_fd_def Connection_default_def conn_ok_def is_listener_def
      RECV_BUFFER_LENGTH_def SEND_BUFFER_LENGTH_def)

lemma Socket_ip_watch:
  assumes "epoll_contract os watch" and "Socket_ip os ip port s = Ok (p, s')"
  shows "watch (kernel s') = watch (kernel s)"
proof -
  have sock: "watch w' = watch w" if "os_socket os w = (r, w')" for w r w'
    using assms(1) that unfolding epoll_contract_def frame_ok_def by metis
  have bnd: "watch w' = watch w" if "os_bind os f ad sz w = (r, w')" for f ad sz w r w'
    using assms(1) that unfolding epoll_contract_def frame_ok_def by (metis snd_conv)
  show ?thesis using assms(2)
    by (auto simp: Socket_ip_def Socket_bind_def new_conn_def new_inet_def update_conn_def read_conn_def
        read_inet_def sys_defs log_def errif_andThen andThen_eq_Ok Let_def
        split: prod.splits if_splits dest!: sock bnd)
qed

lemma listen_frame:
  assumes "sys_listen os f n s = (r, s')"
  shows "conns s' = conns s" "inets s' = inets s" "next_conn s' = next_conn s" "next_inet s' = next_inet s"
    "epfd s' = epfd s" "connMap s' = connMap s" "trace s' = trace s @ [SysListen f n]"
    and "epoll_contract os watch \<Longrightarrow> watch (kernel s') = watch (kernel s)"
    and "fd_contract os opened \<Longrightarrow> opened (kernel s') = opened (kernel s)"
  using assms watch_frame(6) [of os watch f n s] fd_frame(6) [of os opened f n s]
  by (auto simp: sys_listen_def log_def split: prod.splits)

lemma Server_ctor_Ok:
  assumes run: "Server_ctor os lm la s = Ok (srv, s')"
  shows "lm = Null \<and> la \<noteq> Null \<and> srv = \<lparr>servSock = Ptr (next_conn s), serv_loop = la\<rparr> \<and>
    (\<exists>f s2 fl. f \<noteq> -1 \<and>
      trace s' = trace s @ [SysSocket f, SysBind f (addr (InetAddress_ip os ''127.0.0.1'' 8080)) 16,
        SysListen f MAX_LISTEN_NUM, SysSetFl f fl,
        SysEpollCtl EPOLL_CTL_ADD f (Some \<lparr>events = EPOLLIN OR EPOLLET, data_fd = f\<rparr>)] \<and>
      conns s' = (conns s)(next_conn s \<mapsto> listener_conn f (Ptr (next_inet s)) (next_conn s)) \<and>
      connMap s' = (connMap s)(f \<mapsto> Ptr (next_conn s)) \<and>
      (\<forall>watch. epoll_contract os watch \<longrightarrow> watch (kernel (s2 :: 'w reactor)) = watch (kernel s)) \<and>
      (\<forall>opened. fd_contract os opened \<longrightarrow> opens opened (kernel s) f (kernel s2)) \<and>
      kernel s' = kernel (sys_epoll_ctl os (epfd s) EPOLL_CTL_ADD f
        (Some \<lparr>events = EPOLLIN OR EPOLLET, data_fd = f\<rparr>) s2)) \<and>
    next_conn s' = Suc (next_conn s) \<and> next_inet s' = Suc (next_inet s) \<and>
    inets s' = (inets s)(next_inet s \<mapsto> InetAddress_ip os ''127.0.0.1'' 8080) \<and> epfd s' = epfd s"
proof -
  obtain sock s1 where sock: "Socket_ip os ''127.0.0.1'' 8080 s = Ok (sock, s1)"
    and "lm = Null" "la \<noteq> Null"
    using run by (auto simp: Server_ctor_def errif_andThen andThen_eq_Ok split: if_splits)
  from Socket_ip_Ok [OF sock] obtain f where f: "sock = Ptr (next_conn s)" "f \<noteq> -1"
    "conns s1 = (conns s)(next_conn s \<mapsto> Connection_fd f (Ptr (next_inet s)))"
    "next_conn s1 = Suc (next_conn s)" "inets s1 = (inets s)(next_inet s \<mapsto> InetAddress_ip os ''127.0.0.1'' 8080)"
    "next_inet s1 = Suc (next_inet s)" "conn_heap.more s1 = conn_heap.more s"
    "trace s1 = trace s @ [SysSocket f, SysBind f (addr (InetAddress_ip os ''127.0.0.1'' 8080)) 16]"
    "f = fst (os_socket os (kernel s))"
    "kernel s1 = snd (os_bind os f (addr (InetAddress_ip os ''127.0.0.1'' 8080)) 16 (snd (os_socket os (kernel s))))"
    by blast
  have fr: "epfd s1 = epfd s" "connMap s1 = connMap s" by (rule reactor_more [OF f(7)])+
  obtain r s2 where lst: "sys_listen os f MAX_LISTEN_NUM s1 = (r, s2)" by (metis surj_pair)
  note fr2 = listen_frame [OF lst]
  define ev where "ev = \<lparr>events = EPOLLIN OR EPOLLET, data_fd = f\<rparr>"
  define s3 where "s3 = s2\<lparr>conns := (conns s)(next_conn s \<mapsto>
    (Connection_fd f (Ptr (next_inet s)))\<lparr>event := Some ev\<rparr>)\<rparr>"
  define s4 where "s4 = sys_setfl_nonblock os f s3"
  define s5 where "s5 = sys_epoll_ctl os (epfd s) EPOLL_CTL_ADD f (Some ev) s4"
  obtain fl where "trace s4 = trace s3 @ [SysSetFl f fl]" using setfl_trace s4_def by metis
  then have tr: "trace s5 = trace s @ [SysSocket f, SysBind f (addr (InetAddress_ip os ''127.0.0.1'' 8080)) 16,
      SysListen f MAX_LISTEN_NUM, SysSetFl f fl, SysEpollCtl EPOLL_CTL_ADD f (Some ev)]"
    by (simp add: s5_def s3_def fr2 f)
  have fr5: "conns s4 = conns s3" "inets s5 = inets s1" "next_conn s5 = next_conn s1"
    "next_inet s5 = next_inet s1" "connMap s5 = connMap s1" "epfd s4 = epfd s" "epfd s5 = epfd s"
    by (simp_all add: s5_def s4_def s3_def fr fr2)
  have "(srv, s') = (\<lparr>servSock = Ptr (next_conn s), serv_loop = la\<rparr>,
    s5\<lparr>conns := (conns s)(next_conn s \<mapsto> listener_conn f (Ptr (next_inet s)) (next_conn s)),
       connMap := (connMap s)(f \<mapsto> Ptr (next_conn s))\<rparr>)" (is "_ = (_, ?s')")
    using run \<open>la \<noteq> Null\<close> f(3) fr fr2 fr5 lst
    by (auto simp: Server_ctor_def errif_andThen sock f(1) Socket_listen_def conn_exec epoll_callbacks
        Connection_fd_def Connection_default_def updateConnection_def listener_conn_def
        ev_def s3_def s4_def s5_def split: if_splits)
  moreover have "watch (kernel s4) = watch (kernel s)" if K: "epoll_contract os watch" for watch
    by (simp add: s4_def s3_def watch_frame(3) [OF K] fr2(8) [OF K] Socket_ip_watch [OF K sock])
  moreover have "opens opened (kernel s) f (kernel s4)" if F: "fd_contract os opened" for opened
  proof -
    have "opens opened (kernel s) f (snd (os_socket os (kernel s)))"
      "opened (kernel s1) = opened (snd (os_socket os (kernel s)))"
      using F by (simp_all add: fd_contract_def f(9,10))
    then show ?thesis by (simp add: s4_def s3_def fd_frame [OF F] fr2(9) [OF F] opens_def)
  qed
  ultimately show ?thesis
    using \<open>lm = Null\<close> \<open>la \<noteq> Null\<close> f(1-8) fr5 tr s5_def ev_def by (auto intro!: exI [of _ s4])
qed

text \<open>The state in which the loop is entered: the listening connection, filed under its descriptor.\<close>

lemma boot_Ok:
  assumes run: "boot os lm (fresh_process w) = Ok s"
  obtains r f fl s1 s2 where "r \<noteq> -1" "f \<noteq> -1" "os_epoll_create os w = (r, kernel (s1 :: 'w reactor))"
    "conns s = [0 \<mapsto> listener_conn f (Ptr 0) 0]" "inets s = [0 \<mapsto> InetAddress_ip os ''127.0.0.1'' 8080]"
    "connMap s = [f \<mapsto> Ptr 0]" "next_conn s = 1" "next_inet s = 1" "epfd s = r"
    "trace s = [SysEpollCreate r, SysSocket f, SysBind f (addr (InetAddress_ip os ''127.0.0.1'' 8080)) 16,
        SysListen f MAX_LISTEN_NUM, SysSetFl f fl,
        SysEpollCtl EPOLL_CTL_ADD f (Some \<lparr>events = EPOLLIN OR EPOLLET, data_fd = f\<rparr>)]"
    "\<And>watch. epoll_contract os watch \<Longrightarrow> watch (kernel (s2 :: 'w reactor)) = watch (kernel s1)"
    "\<And>opened. fd_contract os opened \<Longrightarrow> opens opened (kernel s1) f (kernel s2)"
    "kernel s = kernel (sys_epoll_ctl os r EPOLL_CTL_ADD f (Some \<lparr>events = EPOLLIN OR EPOLLET, data_fd = f\<rparr>) s2)"
proof -
  obtain r s0 where ep: "sys_epoll_create os (fresh_process w) = (r, s0)" by (metis surj_pair)
  define s1 where "s1 = s0\<lparr>epfd := r, connMap := Map.empty\<rparr>"
  from ep have s1: "conns s1 = Map.empty" "inets s1 = Map.empty" "connMap s1 = Map.empty" "next_conn s1 = 0"
    "next_inet s1 = 0" "trace s1 = [SysEpollCreate r]" "epfd s1 = r" "os_epoll_create os w = (r, kernel s1)"
    by (auto simp: s1_def fresh_process_def sys_epoll_create_def log_def split: prod.splits)
  from run ep obtain srv where r: "r \<noteq> -1" and srv: "Server_ctor os lm loop_obj s1 = Ok (srv, s)"
    by (auto simp: boot_def EventLoop_ctor_def Epoll_ctor_def errif_andThen andThen_eq_Ok s1_def split: if_splits)
  from Server_ctor_Ok [OF srv] obtain f fl s2 where "f \<noteq> -1"
    "trace s = [SysEpollCreate r, SysSocket f, SysBind f (addr (InetAddress_ip os ''127.0.0.1'' 8080)) 16,
        SysListen f MAX_LISTEN_NUM, SysSetFl f fl,
        SysEpollCtl EPOLL_CTL_ADD f (Some \<lparr>events = EPOLLIN OR EPOLLET, data_fd = f\<rparr>)]"
    "conns s = [0 \<mapsto> listener_conn f (Ptr 0) 0]" "connMap s = [f \<mapsto> Ptr 0]"
    "\<forall>watch. epoll_contract os watch \<longrightarrow> watch (kernel (s2 :: 'w reactor)) = watch (kernel s1)"
    "\<forall>opened. fd_contract os opened \<longrightarrow> opens opened (kernel s1) f (kernel s2)"
    "kernel s = kernel (sys_epoll_ctl os r EPOLL_CTL_ADD f (Some \<lparr>events = EPOLLIN OR EPOLLET, data_fd = f\<rparr>) s2)"
    "next_conn s = 1" "next_inet s = 1" "inets s = [0 \<mapsto> InetAddress_ip os ''127.0.0.1'' 8080]" "epfd s = r"
    unfolding s1 by auto
  then show ?thesis using that r s1(8) by blast
qed

lemma boot_inv:
  assumes K: "epoll_contract os watch" and w: "watch w = Map.empty"
    and run: "boot os lm (fresh_process w) = Ok s"
  shows "reactor_inv watch s"
  using run
proof (cases rule: boot_Ok)
  case (1 r f fl s1 s2)
  have "watch (kernel s1) = Map.empty"
    using watch_frame(7) [OF K, of "fresh_process w"] w 1(3) by (simp add: fresh_process_def sys_epoll_create_def)
  then have "watch (kernel s) = Map.empty \<or> 0 \<le> f \<and> watch (kernel s) = [f \<mapsto> \<lparr>events = EPOLLIN OR EPOLLET, data_fd = f\<rparr>]"
    using watch_ctl [OF K, of r EPOLL_CTL_ADD f "Some \<lparr>events = EPOLLIN OR EPOLLET, data_fd = f\<rparr>" s2] 1(11) [OF K] 1(13)
    by simp
  then show ?thesis
    by (auto simp: inv_defs wf_defs 1(4-8) has_flag_def flag_defs split: if_splits)
qed

text \<open>Starting up ends the process through \<open>errif\<close>, or reaches the loop with the invariant.\<close>

lemma Socket_ip_within: "within (range ProcessExit) (\<lambda>_. True) (Socket_ip os ip port s)"
  by (auto simp: Socket_ip_def Socket_bind_def new_conn_def new_inet_def update_conn_def read_conn_def
      read_inet_def errif_andThen Let_def sys_socket_def sys_bind_def log_def split: prod.splits)

lemma Server_ctor_within:
  assumes "la \<noteq> Null"
  shows "within (range ProcessExit) (\<lambda>_. True) (Server_ctor os lm la s)"
proof (cases "lm = Null")
  case True
  show ?thesis
  proof (cases "Socket_ip os ''127.0.0.1'' 8080 s")
    case None
    then show ?thesis by (simp add: Server_ctor_def True)
  next
    case (Some r)
    show ?thesis
    proof (cases r)
      case (Inl f)
      then show ?thesis using Some Socket_ip_within [of os "''127.0.0.1''" 8080 s]
        by (simp add: Server_ctor_def True)
    next
      case (Inr x)
      obtain sock s1 where x: "x = (sock, s1)" by (metis surj_pair)
      from Some Inr x Socket_ip_Ok obtain f where "sock = Ptr (next_conn s)"
        "conns s1 = (conns s)(next_conn s \<mapsto> Connection_fd f (Ptr (next_inet s)))" by blast
      moreover obtain l s2 where lst: "sys_listen os f MAX_LISTEN_NUM s1 = (l, s2)" by (metis surj_pair)
      moreover from lst have "conns s2 = conns s1"
        by (auto simp: sys_listen_def log_def split: prod.splits)
      ultimately show ?thesis using assms
        by (simp add: Server_ctor_def True Some Inr x Socket_listen_def conn_exec errif_andThen
            epoll_callbacks Connection_fd_def Connection_default_def updateConnection_def)
    qed
  qed
qed (simp add: Server_ctor_def)

lemma boot_within:
  assumes K: "epoll_contract os watch" and w: "watch w = Map.empty"
  shows "within (range ProcessExit) (reactor_inv watch) (boot os lm (fresh_process w))"
proof -
  have "within (range ProcessExit) (\<lambda>_. True) (boot os lm (fresh_process w))"
    unfolding boot_def
    by (rule within_andThen [where Q = "\<lambda>_. True"])
      (auto simp: EventLoop_ctor_def Epoll_ctor_def errif_andThen loop_obj_def Let_def split: prod.splits
        intro!: within_andThen [OF Server_ctor_within])
  then show ?thesis using boot_inv [OF K w]
    by (cases "boot os lm (fresh_process w)") (auto simp: within_def split: sum.splits)
qed

end
