(* ===== verification/Rounds.thy ===== *)
theory Rounds
  imports Lifetime
begin

text \<open>
  Rounds of the event loop that report one client: what a round does in which the client is readable,
  and what a round does in which it is writable.
\<close>

lemma client_flags [simp]:
  "has_flag EPOLLIN EPOLLIN" "\<not> has_flag EPOLLOUT EPOLLIN"
  by (simp_all add: has_flag_def flag_defs)

text \<open>A readable client without earlier data, which has sent a message.\<close>

lemma round_receives:
  assumes c: "connMap s f = Some (Ptr a)" "conns s a = Some c" "conn_fd c = f" "is_client a c" "conn_ok a c" "rlen c = 0"
    and readable: "os_epoll_wait os (epfd s) MAX_EPOLL_CONN t (kernel s) = ((1, [\<lparr>events = EPOLLIN, data_fd = f\<rparr>]), w)"
    and msg: "delivers os f RECV_BUFFER_LENGTH 0 cs w" "length (concat cs) < RECV_BUFFER_LENGTH"
    and K: "K w" "\<forall>k w. K w \<longrightarrow> K (snd (os_recv os f k w))"
  shows "\<exists>s1 s2 calls. iteration os (run_callback os) t s = Ok s1 \<and> only_recv f calls \<and>
    trace s1 = trace s @ [SysEpollWait 1] @ calls @ [OutRecv (rx_text 0 (concat cs)),
      SysEpollCtl EPOLL_CTL_MOD f (Some \<lparr>events = EPOLLOUT, data_fd = f\<rparr>)] \<and>
    conns s1 a = Some (received (c\<lparr>revent := Some \<lparr>events = EPOLLIN, data_fd = f\<rparr>\<rparr>)
      (rx_message 0 (concat cs)) (int (length (concat cs)))) \<and>
    inets s1 = inets s \<and> connMap s1 = connMap s \<and> epfd s1 = epfd s \<and>
    K (kernel (s2 :: 'w reactor)) \<and> kernel s1 = kernel (sys_epoll_ctl os (epfd s) EPOLL_CTL_MOD f
      (Some \<lparr>events = EPOLLOUT, data_fd = f\<rparr>) s2)"
proof -
  let ?m = "concat cs"
  let ?c1 = "c\<lparr>revent := Some \<lparr>events = EPOLLIN, data_fd = f\<rparr>\<rparr>"
  let ?s0 = "s\<lparr>kernel := w, trace := trace s @ [SysEpollWait 1], conns := (conns s)(a \<mapsto> ?c1)\<rparr>"
  have keep: "K w'" if "K w" "os_recv os f k w = (ans, w')" for k w ans w'
    using K(2) that by (metis snd_conv)
  obtain s1 where r: "recvCallback os (Ptr a) ?s0 = Ok s1"
    "recv_effect os K a ?c1 ?s0 s1 (rx_message 0 ?m) (int (length ?m)) (rx_text 0 ?m)"
    using recvCallback_message_kernel [of ?s0 a ?c1 0 os cs K] c msg K(1) keep by (auto simp: holds_iff conn_ok_def)
  have run1: "iteration os (run_callback os) t s = Ok s1"
    using iteration_one [OF c(1-3) readable, of "run_callback os"] r(1) c(4)
    by (simp add: conn_exec is_client_def run_callback_def)
  with r(2) c(3) show ?thesis by (auto simp: recv_effect_def only_recv_def)
qed

text \<open>A writable client, which has a text to send back.\<close>

lemma round_answers:
  assumes c: "connMap s f = Some (Ptr a)" "conns s a = Some c" "conn_fd c = f" "is_client a c" "conn_ok a c"
    "inetAddr c = Ptr b" "inets s b = Some i"
    and data: "cstr (rbuffer c) = Ok str" "0 \<le> rlen c" "rlen c \<le> int RECV_BUFFER_LENGTH"
    and writable: "os_epoll_wait os (epfd s) MAX_EPOLL_CONN t (kernel s) = ((1, [\<lparr>events = EPOLLOUT, data_fd = f\<rparr>]), w)"
  shows "\<exists>s1. iteration os (run_callback os) t s = Ok s1 \<and>
    trace s1 = trace s @ [SysEpollWait 1, SysWrite f (tx_data c str), SysEpollCtl EPOLL_CTL_DEL f None, SysClose f] \<and>
    conns s1 = (conns s)(a := None) \<and> connMap s1 = (connMap s)(f \<mapsto> Null)"
proof -
  let ?c1 = "c\<lparr>revent := Some \<lparr>events = EPOLLOUT, data_fd = f\<rparr>\<rparr>"
  let ?s0 = "s\<lparr>kernel := w, trace := trace s @ [SysEpollWait 1], conns := (conns s)(a \<mapsto> ?c1)\<rparr>"
  have tx: "tx_data ?c1 str = tx_data c str" by (simp add: tx_data_def)
  obtain s1 where s1: "sendCallback os (Ptr a) ?s0 = Ok s1" "conns s1 = (conns s)(a := None)"
    "connMap s1 = (connMap s)(f \<mapsto> Null)"
    "trace s1 = trace s @ [SysEpollWait 1, SysWrite f (tx_data c str), SysEpollCtl EPOLL_CTL_DEL f None, SysClose f]"
    using sendCallback_effect [of ?s0 a ?c1 b i str os] c data tx by (auto simp: conn_ok_def)
  have "iteration os (run_callback os) t s = dispatch (run_callback os) [Ptr a] ?s0"
    by (rule iteration_one [OF c(1-3) writable])
  also have "\<dots> = Ok s1"
    using s1(1) c(4) by (simp add: conn_exec is_client_def run_callback_def)
  finally show ?thesis using s1 by auto
qed

end
