(* ===== verification/Sim_Kernel.thy ===== *)
theory Sim_Kernel
  imports Os
begin

text \<open>
  A small executable kernel that meets the contracts of \<open>Os\<close>: sockets are descriptors counted up,
  what arrives on a descriptor and what \<open>epoll_wait\<close> reports are scripts, the interest list is
  a map, and the open descriptors are a set. It instantiates the kernel parameter where a theorem is applied at a concrete input. The
  flag of \<open>sim_os\<close> says whether scripted failures of \<open>recv\<close> happen or count as "nothing to read".
\<close>

datatype answer = Chunk "byte list" | Failure int

record sim =
  sim_errno :: int
  sim_in :: "int \<Rightarrow> answer list"
  sim_backlog :: nat
  sim_next :: int
  sim_open :: "int set"
  sim_watch :: "int \<rightharpoonup> epoll_event"
  sim_ready :: "(int \<times> 32 word) list list"

definition sim0 :: sim where
  "sim0 = \<lparr>sim_errno = 0, sim_in = (\<lambda>_. []), sim_backlog = 0, sim_next = 3, sim_open = {},
     sim_watch = Map.empty, sim_ready = []\<rparr>"

fun sim_recv :: "bool \<Rightarrow> int \<Rightarrow> nat \<Rightarrow> sim \<Rightarrow> (int \<times> byte list) \<times> sim" where
  "sim_recv hard f len w =
     (if len = 0 then ((0, []), w)
      else case sim_in w f of
        [] \<Rightarrow> ((-1, []), w\<lparr>sim_errno := EAGAIN\<rparr>)
      | Failure e # cs \<Rightarrow> ((-1, []), w\<lparr>sim_errno := (if hard then e else EAGAIN), sim_in := (sim_in w)(f := cs)\<rparr>)
      | Chunk c # cs \<Rightarrow>
          if length c \<le> len then ((int (length c), c), w\<lparr>sim_in := (sim_in w)(f := cs)\<rparr>)
          else ((int len, take len c), w\<lparr>sim_in := (sim_in w)(f := Chunk (drop len c) # cs)\<rparr>))"

definition sim_fresh :: "sim \<Rightarrow> int \<times> sim" where
  "sim_fresh w = (if 0 \<le> sim_next w \<and> sim_watch w (sim_next w) = None \<and> sim_next w \<notin> sim_open w
     then (sim_next w, w\<lparr>sim_next := sim_next w + 1, sim_open := insert (sim_next w) (sim_open w)\<rparr>)
     else (-1, w))"

definition sim_accept :: "int \<Rightarrow> sim \<Rightarrow> (int \<times> sockaddr_in \<times> 32 word) \<times> sim" where
  "sim_accept f w =
     (let peer = \<lparr>sin_family = 2, sin_port = 1, sin_addr = 1\<rparr> in
      if sim_backlog w = 0 then ((-1, peer, 16), w\<lparr>sim_errno := EAGAIN\<rparr>)
      else let (r, w) = sim_fresh w in ((r, peer, 16), w\<lparr>sim_backlog := sim_backlog w - 1\<rparr>))"

definition sim_ctl :: "int \<Rightarrow> ctl_op \<Rightarrow> int \<Rightarrow> epoll_event option \<Rightarrow> sim \<Rightarrow> int \<times> sim" where
  "sim_ctl ep op f ev w = (case op of
       EPOLL_CTL_DEL \<Rightarrow> if sim_watch w f = None then (-1, w) else (0, w\<lparr>sim_watch := (sim_watch w)(f := None)\<rparr>)
     | EPOLL_CTL_MOD \<Rightarrow> (case ev of Some e \<Rightarrow> if sim_watch w f = None \<or> f < 0 then (-1, w)
         else (0, w\<lparr>sim_watch := (sim_watch w)(f \<mapsto> e)\<rparr>) | None \<Rightarrow> (-1, w))
     | EPOLL_CTL_ADD \<Rightarrow> (case ev of Some e \<Rightarrow> if sim_watch w f \<noteq> None \<or> f < 0 then (-1, w)
         else (0, w\<lparr>sim_watch := (sim_watch w)(f \<mapsto> e)\<rparr>) | None \<Rightarrow> (-1, w)))"

text \<open>The next scripted report, cut down to registered descriptors (each once) and reportable bits.\<close>

fun sim_report :: "(int \<rightharpoonup> epoll_event) \<Rightarrow> nat \<Rightarrow> (int \<times> 32 word) list \<Rightarrow> epoll_event list" where
  "sim_report reg cap [] = []"
| "sim_report reg cap ((f, bits) # rest) =
     (case cap of 0 \<Rightarrow> [] | Suc n \<Rightarrow>
       (case reg f of None \<Rightarrow> sim_report reg cap rest
        | Some e \<Rightarrow> \<lparr>events = bits AND reportable (events e), data_fd = data_fd e\<rparr> #
            sim_report (reg(f := None)) n rest))"

definition sim_wait :: "int \<Rightarrow> nat \<Rightarrow> int \<Rightarrow> sim \<Rightarrow> (int \<times> epoll_event list) \<times> sim" where
  "sim_wait ep cap t w = (case sim_ready w of
       [] \<Rightarrow> ((-1, []), w)
     | r # rs \<Rightarrow> let evs = sim_report (sim_watch w) cap r
                 in ((int (length evs), evs), w\<lparr>sim_ready := rs\<rparr>))"

definition sim_epoll_create :: "sim \<Rightarrow> int \<times> sim" where
  "sim_epoll_create w = (if 100 \<in> sim_open w then (-1, w) else (100, w\<lparr>sim_open := insert 100 (sim_open w)\<rparr>))"

definition sim_close :: "int \<Rightarrow> sim \<Rightarrow> int \<times> sim" where
  "sim_close f w = (0, w\<lparr>sim_watch := (sim_watch w)(f := None), sim_open := sim_open w - {f}\<rparr>)"

definition sim_os :: "bool \<Rightarrow> sim os" where
  "sim_os hard = \<lparr>os_inet_addr = (\<lambda>_. 16777343), os_errno = sim_errno, os_socket = sim_fresh,
     os_bind = (\<lambda>_ _ _ w. (0, w)), os_listen = (\<lambda>_ _ w. (0, w)), os_accept = sim_accept,
     os_connect = (\<lambda>_ _ _ w. (0, w)), os_getfl = (\<lambda>_ w. (2, w)), os_setfl = (\<lambda>_ _ w. (0, w)),
     os_epoll_create = sim_epoll_create, os_epoll_ctl = sim_ctl, os_epoll_wait = sim_wait,
     os_recv = sim_recv hard, os_send = (\<lambda>_ cs w. (int (length cs), w)),
     os_write = (\<lambda>_ cs w. (int (length cs), w)),
     os_close = sim_close\<rparr>"

lemma sim_os_sel [simp]:
  "os_recv (sim_os hard) = sim_recv hard" "os_errno (sim_os hard) = sim_errno"
  "os_accept (sim_os hard) = sim_accept" "os_epoll_wait (sim_os hard) = sim_wait"
  by (simp_all add: sim_os_def)

lemma sim_report_ok:
  "length (sim_report reg cap r) \<le> cap \<and>
   (\<exists>fds. distinct fds \<and> set fds \<subseteq> dom reg \<and>
      list_all2 (\<lambda>f ev. \<exists>e. reg f = Some e \<and> data_fd ev = data_fd e \<and>
        events ev AND NOT (reportable (events e)) = 0) fds (sim_report reg cap r))"
proof (induction reg cap r rule: sim_report.induct)
  case (2 reg cap f bits rest)
  show ?case
  proof (cases cap)
    case (Suc n)
    show ?thesis
    proof (cases "reg f")
      case None
      then show ?thesis using "2.IH"(1) [OF Suc None] Suc by auto
    next
      case (Some e)
      from "2.IH"(2) [OF Suc Some] obtain fds where
        fds: "length (sim_report (reg(f := None)) n rest) \<le> n" "distinct fds" "set fds \<subseteq> dom (reg(f := None))"
          "list_all2 (\<lambda>f' ev. \<exists>e. (reg(f := None)) f' = Some e \<and> data_fd ev = data_fd e \<and>
            events ev AND NOT (reportable (events e)) = 0) fds (sim_report (reg(f := None)) n rest)"
        by blast
      have "list_all2 (\<lambda>f ev. \<exists>e. reg f = Some e \<and> data_fd ev = data_fd e \<and>
            events ev AND NOT (reportable (events e)) = 0) fds (sim_report (reg(f := None)) n rest)"
        using fds(4) by (rule list_all2_mono) (auto split: if_splits)
      moreover have "(bits AND reportable (events e)) AND NOT (reportable (events e)) = 0"
        by (simp add: and.assoc)
      ultimately show ?thesis using fds Some Suc
        by (auto intro!: exI [of _ "f # fds"])
    qed
  qed (auto intro!: exI [of _ "[]"])
qed (auto intro!: exI [of _ "[]"])

lemma sim_report_wait:
  "length (sim_report reg cap r) \<le> cap" "wait_report reg (sim_report reg cap r)"
  using sim_report_ok [of reg cap r] unfolding wait_report_def by blast+

lemma sim_contract: "epoll_contract (sim_os hard) sim_watch"
proof -
  have "accept_ok (sim_os hard) sim_watch"
    by (auto simp: accept_ok_def sim_os_def sim_accept_def sim_fresh_def Let_def split: if_splits)
  moreover have "ctl_ok (sim_os hard) sim_watch"
    by (auto simp: ctl_ok_def sim_os_def sim_ctl_def split: ctl_op.splits option.splits if_splits)
  moreover have "wait_ok (sim_os hard) sim_watch"
    by (auto simp: wait_ok_def sim_os_def sim_wait_def Let_def sim_report_wait split: list.splits)
  moreover have "close_ok (sim_os hard) sim_watch"
    by (auto simp: close_ok_def sim_os_def sim_close_def)
  moreover have "frame_ok (sim_os hard) sim_watch"
    by (auto simp: frame_ok_def sim_os_def sim_fresh_def sim_epoll_create_def split: list.splits answer.splits if_splits)
  ultimately show ?thesis by (simp add: epoll_contract_def)
qed

lemma sim_recv_contract: "recv_contract (sim_os hard)"
  by (auto simp: recv_contract_def sim_os_def split: list.splits answer.splits if_splits)

lemma sim_recv_soft: "recv_soft (sim_os False)"
  by (auto simp: recv_soft_def sim_os_def would_block_def split: list.splits answer.splits if_splits)

lemma sim_fds: "fd_contract (sim_os hard) sim_open"
  by (auto simp: fd_contract_def opens_def sim_os_def sim_fresh_def sim_epoll_create_def sim_accept_def sim_ctl_def
      sim_wait_def sim_close_def Let_def split: list.splits answer.splits ctl_op.splits option.splits)

end
