(* ===== verification/Scenarios.thy ===== *)
theory Scenarios
  imports Rounds Sim_Kernel
begin

text \<open>
  Concrete processes over the simulated kernel of \<open>Sim_Kernel\<close>, at which the properties of the
  reactor are applied: a client that connects and sends two bytes, a process with one client on
  descriptor 4 and scripted input, the same with a message already received, and the first two rounds
  of a visit.
\<close>

definition sim_visit :: sim where
  "sim_visit = sim0\<lparr>sim_backlog := 1, sim_in := (\<lambda>_. [Chunk [72, 105]]),
     sim_ready := [[(3, 1)], [(4, 1)], [(4, 4)]]\<rparr>"

lemmas startup_defs = Server_ctor_def Socket_ip_def Socket_bind_def Socket_listen_def conn_exec new_conn_def
  new_inet_def read_inet_def epoll_callbacks updateConnection_def Connection_default_def

lemma simulated_server:
  "\<exists>srv s'. Server_ctor (sim_os True) Null loop_obj (fresh_process sim0) = Ok (srv, s')"
  by (simp add: startup_defs fresh_process_def sys_defs log_def errif_andThen loop_obj_def sim_os_def
      sim0_def sim_fresh_def sim_ctl_def Let_def)

lemma simulated_boot:
  "\<exists>s. boot (sim_os True) Null (fresh_process sim0) = Ok s \<and> sim_watch (kernel s) 3 \<noteq> None"
  by (simp add: boot_def EventLoop_ctor_def Epoll_ctor_def startup_defs fresh_process_def sys_defs log_def errif_andThen
      loop_obj_def sim_os_def sim0_def sim_fresh_def sim_epoll_create_def sim_ctl_def Let_def)

lemma simulated_listener:
  "\<exists>s c. test_main (sim_os True) Null 0 (fresh_process sim0) = Ok s \<and> conns s 0 = Some c"
  by (simp add: test_main_def boot_def EventLoop_ctor_def Epoll_ctor_def startup_defs fresh_process_def sys_defs log_def errif_andThen
      loop_obj_def sim_os_def sim0_def sim_fresh_def sim_epoll_create_def sim_ctl_def Let_def)

text \<open>The first round with a client waiting: the client is on descriptor 4.\<close>

lemma simulated_first_round:
  "\<exists>s i. test_main (sim_os hard) Null 1 (fresh_process sim_visit) = Ok s \<and>
     conns s 1 = Some ((client_conn 4 (Ptr 1) 1)) \<and> connMap s 4 = Some (Ptr 1) \<and> inets s 1 = Some i \<and>
     sim_ready (kernel s) = [[(4, 1)], [(4, 4)]] \<and> sim_in (kernel s) = (\<lambda>_. [Chunk [72, 105]]) \<and>
     sim_watch (kernel s) 4 = Some \<lparr>events = EPOLLET OR EPOLLIN, data_fd = 4\<rparr>"
  by (simp add: test_main_def boot_def EventLoop_ctor_def Epoll_ctor_def startup_defs fresh_process_def sys_defs log_def errif_andThen
      loop_obj_def sim_os_def sim0_def sim_fresh_def sim_epoll_create_def sim_ctl_def Let_def sim_visit_def
      iteration_def wait_def sim_wait_def MAX_EPOLL_CONN_def connMap_at_def reportable_def flag_defs has_flag_def client_conn_def
      run_callback_def acceptCallback_def Socket_accept_def Connection_fd_def update_inet_def sim_accept_def)

lemma simulated_client:
  "\<exists>s c. test_main (sim_os hard) Null 1 (fresh_process sim_visit) = Ok s \<and> conns s 1 = Some c \<and>
     conn_fd c = 4 \<and> connMap s 4 = Some (Ptr 1)"
  using simulated_first_round [of hard] by auto

text \<open>The second round: the client is readable, is read from, and now waits to be answered.\<close>

definition sim_greeted :: "conn_obj" where
  "sim_greeted = received ((client_conn 4 (Ptr 1) 1)\<lparr>revent := Some \<lparr>events = EPOLLIN, data_fd = 4\<rparr>\<rparr>)
     (rx_message 0 [72, 105]) 2"

lemma simulated_second_round:
  "\<exists>s1 s2 w w2 i. test_main (sim_os hard) Null 1 (fresh_process sim_visit) = Ok s1 \<and>
     os_epoll_wait (sim_os hard) (epfd s1) MAX_EPOLL_CONN (-1) (kernel s1) = ((1, [\<lparr>events = EPOLLIN, data_fd = 4\<rparr>]), w) \<and>
     iteration (sim_os hard) (run_callback (sim_os hard)) (-1) s1 = Ok s2 \<and>
     os_epoll_wait (sim_os hard) (epfd s2) MAX_EPOLL_CONN (-1) (kernel s2) = ((1, [\<lparr>events = EPOLLOUT, data_fd = 4\<rparr>]), w2) \<and>
     conns s2 1 = Some sim_greeted \<and> connMap s2 4 = Some (Ptr 1) \<and> inets s2 1 = Some i"
proof -
  let ?os = "sim_os hard" and ?c = "client_conn 4 (Ptr 1) 1"
  obtain s1 i where s1: "test_main ?os Null 1 (fresh_process sim_visit) = Ok s1" "conns s1 1 = Some ?c"
    "connMap s1 4 = Some (Ptr 1)" "inets s1 1 = Some i" "sim_ready (kernel s1) = [[(4, 1)], [(4, 4)]]"
    "sim_in (kernel s1) = (\<lambda>_. [Chunk [72, 105]])"
    "sim_watch (kernel s1) 4 = Some \<lparr>events = EPOLLET OR EPOLLIN, data_fd = 4\<rparr>"
    using simulated_first_round by blast
  have client: "is_client 1 ?c" by (simp add: is_client_def)
  have w1: "os_epoll_wait ?os (epfd s1) MAX_EPOLL_CONN (-1) (kernel s1) =
      ((1, [\<lparr>events = EPOLLIN, data_fd = 4\<rparr>]), (kernel s1)\<lparr>sim_ready := [[(4, 4)]]\<rparr>)"
    by (simp add: s1 sim_wait_def MAX_EPOLL_CONN_def reportable_def flag_defs)
  have msg: "delivers ?os 4 RECV_BUFFER_LENGTH 0 [[72, 105]] ((kernel s1)\<lparr>sim_ready := [[(4, 4)]]\<rparr>)"
    by (simp add: s1 would_block_def RECV_BUFFER_LENGTH_def)
  define K where "K w \<longleftrightarrow> sim_ready w = [[(4, 4)]] \<and> sim_watch w 4 = sim_watch (kernel s1) 4" for w :: sim
  have K: "\<forall>k w. K w \<longrightarrow> K (snd (os_recv ?os 4 k w))"
    by (auto simp: K_def split: list.splits answer.splits)
  have K0: "K ((kernel s1)\<lparr>sim_ready := [[(4, 4)]]\<rparr>)" by (simp add: K_def)
  obtain s2 s where s2: "iteration ?os (run_callback ?os) (-1) s1 = Ok s2" "conns s2 1 = Some sim_greeted"
    "inets s2 = inets s1" "connMap s2 = connMap s1" "K (kernel (s :: sim reactor))"
    "kernel s2 = kernel (sys_epoll_ctl ?os (epfd s1) EPOLL_CTL_MOD 4 (Some \<lparr>events = EPOLLOUT, data_fd = 4\<rparr>) s)"
    using round_receives [where K = K, OF s1(3,2) _ client _ _ w1 msg _ K0 K] by (auto simp: RECV_BUFFER_LENGTH_def sim_greeted_def)
  have "\<exists>w. os_epoll_wait ?os (epfd s2) MAX_EPOLL_CONN (-1) (kernel s2) = ((1, [\<lparr>events = EPOLLOUT, data_fd = 4\<rparr>]), w)"
    using s2(5) s1(7)
    by (simp add: s2(6) K_def sys_epoll_ctl_def sim_os_def sim_ctl_def sim_wait_def MAX_EPOLL_CONN_def reportable_def flag_defs)
  then show ?thesis using s1(1,3,4) w1 s2(1-4) by auto
qed

text \<open>The three rounds of the visit: the client connects, is read from, and is answered.\<close>

lemma simulated_visit:
  "\<exists>s pre. test_main (sim_os hard) Null 3 (fresh_process sim_visit) = Ok s \<and>
     trace s = pre @ [SysWrite 4 [Some 72, Some 105], SysEpollCtl EPOLL_CTL_DEL 4 None, SysClose 4]"
proof -
  let ?os = "sim_os hard"
  obtain s1 s2 w2 i where s: "test_main ?os Null 1 (fresh_process sim_visit) = Ok s1"
    "iteration ?os (run_callback ?os) (-1) s1 = Ok s2"
    "os_epoll_wait ?os (epfd s2) MAX_EPOLL_CONN (-1) (kernel s2) = ((1, [\<lparr>events = EPOLLOUT, data_fd = 4\<rparr>]), w2)"
    "conns s2 1 = Some sim_greeted" "connMap s2 4 = Some (Ptr 1)" "inets s2 1 = Some i"
    using simulated_second_round [of hard] by blast
  have c: "is_client 1 sim_greeted" "conn_ok 1 sim_greeted" "cstr (rbuffer sim_greeted) = Ok [72, 105]"
    "conn_fd sim_greeted = 4" "inetAddr sim_greeted = Ptr 1" "rlen sim_greeted = 2"
    using cstr_rx_message [of 0 "[72, 105]"]
    by (simp_all add: sim_greeted_def received_def is_client_def conn_ok_def rx_text_def rx_message_def RECV_BUFFER_LENGTH_def)
  obtain s3 where s3: "iteration ?os (run_callback ?os) (-1) s2 = Ok s3"
    "trace s3 = trace s2 @ [SysEpollWait 1, SysWrite 4 (tx_data sim_greeted [72, 105]), SysEpollCtl EPOLL_CTL_DEL 4 None, SysClose 4]"
    using round_answers [OF s(5,4) c(4,1,2,5) s(6) c(3) _ _ s(3)] by (auto simp: c(6) RECV_BUFFER_LENGTH_def)
  have "tx_data sim_greeted [72, 105] = [Some 72, Some 105]" by (simp add: tx_data_def c(6))
  moreover have "test_main ?os Null 3 (fresh_process sim_visit) = Ok s3"
    using s(1,2) s3(1) by (auto simp: test_main_def andThen_eq_Ok numeral_3_eq_3)
  ultimately show ?thesis using s3(2) by (intro exI [of _ s3] exI [of _ "trace s2 @ [SysEpollWait 1]"]) simp
qed

text \<open>A process that has one client on descriptor 4.\<close>

definition one_client :: "answer list \<Rightarrow> sim reactor" where
  "one_client answers = (fresh_process (sim0\<lparr>sim_in := (\<lambda>_. answers),
       sim_watch := [4 \<mapsto> \<lparr>events = EPOLLET OR EPOLLIN, data_fd = 4\<rparr>]\<rparr>))
     \<lparr>inets := [0 \<mapsto> InetAddress_default], next_inet := 1,
      conns := [0 \<mapsto> client_conn 4 (Ptr 0) 0], next_conn := 1, connMap := [4 \<mapsto> Ptr 0]\<rparr>"

lemma one_client_sel [simp]:
  "conns (one_client cs) 0 = Some (client_conn 4 (Ptr 0) 0)" "inets (one_client cs) 0 = Some InetAddress_default"
  "connMap (one_client cs) 4 = Some (Ptr 0)"
  "sim_in (kernel (one_client cs)) = (\<lambda>_. cs)"
  by (simp_all add: one_client_def fresh_process_def client_conn_def Connection_fd_def Connection_default_def)

lemma one_client_delivers:
  "delivers (sim_os hard) f 2048 0 [[72, 105], [33]] (kernel (one_client [Chunk [72, 105], Chunk [33]]))"
  by (simp add: sim_os_def would_block_def)

text \<open>The same client after its first message, two bytes long.\<close>

definition greeted :: conn_obj where
  "greeted = received (client_conn 4 (Ptr 0) 0) (rx_message 0 [72, 105]) 2"

definition second_message :: "answer list \<Rightarrow> sim reactor" where
  "second_message answers = (one_client answers)\<lparr>conns := [0 \<mapsto> greeted]\<rparr>"

lemma second_message_sel [simp]:
  "conns (second_message cs) 0 = Some greeted" "inets (second_message cs) 0 = Some InetAddress_default"
  "sim_in (kernel (second_message cs)) = (\<lambda>_. cs)" "inEpoll greeted" "rlen greeted = 2" "conn_fd greeted = 4"
  "inetAddr greeted = Ptr 0"
  by (simp_all add: second_message_def greeted_def received_def one_client_def fresh_process_def)

lemma greeted_ok [simp]: "conn_ok 0 greeted" "sendable greeted" "echoable greeted"
proof -
  have "same_identity (client_conn 4 (Ptr 0) 0) greeted"
    by (simp add: same_identity_def greeted_def received_def rx_message_def client_conn_def Connection_fd_def
        Connection_default_def RECV_BUFFER_LENGTH_def)
  then show "conn_ok 0 greeted" using same_identity_ok by (metis client_conn_sel(3))
  show echo: "echoable greeted"
    using cstr_rx_message [of 0 "[72, 105]"]
    by (simp add: echoable_def greeted_def received_def client_conn_def RECV_BUFFER_LENGTH_def)
  then show "sendable greeted" by (simp add: sendable_def greeted_def)
qed

text \<open>A process with its listening socket on descriptor 3 and \<open>n\<close> clients waiting.\<close>

definition listening :: "nat \<Rightarrow> sim reactor" where
  "listening n = (fresh_process (sim0\<lparr>sim_backlog := n, sim_next := 5,
       sim_watch := [3 \<mapsto> \<lparr>events = EPOLLIN OR EPOLLET, data_fd = 3\<rparr>], sim_ready := [[(3, 1)]]\<rparr>))
     \<lparr>inets := [0 \<mapsto> InetAddress_default], next_inet := 1,
      conns := [0 \<mapsto> listener_conn 3 (Ptr 0) 0], next_conn := 1, connMap := [3 \<mapsto> Ptr 0]\<rparr>"

lemma listening_sel [simp]:
  "conns (listening n) 0 = Some (listener_conn 3 (Ptr 0) 0)" "next_conn (listening n) = 1"
  "sim_backlog (kernel (listening n)) = n"
  by (simp_all add: listening_def fresh_process_def)

lemma listening_accepts:
  "fst (fst (os_accept (sim_os hard) f (kernel (listening 0)))) = -1"
  "fst (fst (os_accept (sim_os hard) f (kernel (listening (Suc n))))) = 5"
  by (simp_all add: sim_accept_def sim_fresh_def Let_def listening_def fresh_process_def sim0_def)

lemma listening_inv: "reactor_inv sim_watch (listening n)"
  by (auto simp: inv_defs wf_defs listening_def fresh_process_def has_flag_def flag_defs split: if_splits)

text \<open>A client that has its event but is not registered yet.\<close>

definition unregistered :: "sim reactor" where
  "unregistered = (one_client [])\<lparr>conns := [0 \<mapsto> (client_conn 4 (Ptr 0) 0)\<lparr>inEpoll := False\<rparr>]\<rparr>"

text \<open>One client that has sent two bytes, and a kernel that reports it readable, then writable.\<close>

definition visited :: "sim reactor" where
  "visited = (one_client [])\<lparr>kernel := (kernel (one_client [Chunk [72, 105]]))\<lparr>sim_ready := [[(4, 1)], [(4, 4)]]\<rparr>\<rparr>"

end
