(* ===== verification/Descriptors.thy ===== *)
theory Descriptors
  imports Scenarios
begin

text \<open>
  The server's file descriptors. An automaton per descriptor says in which order the program may
  use it, from the call that opens it to the one that closes it; \<open>role\<close> reads the automaton's state
  off the program's memory, and \<open>fds_ok\<close> says that the history of system calls has brought the
  automaton there. Every handler keeps it, so the event loop refines the automata: no descriptor
  is used before it was opened or after it was closed, closed twice, or lost.
\<close>

section \<open>The life of a descriptor\<close>

datatype fd_state =
    Absent | EpollInstance
  | Created | Named | Listening | Quiet | Serving
  | Accepted | Tamed | Reading | Armed | Answered | Retired

text \<open>The calls that have to do with the descriptor \<open>f\<close>.\<close>

fun concerns :: "int \<Rightarrow> syscall \<Rightarrow> bool" where
  "concerns f (SysSocket r) \<longleftrightarrow> r = f"
| "concerns f (SysBind g _ _) \<longleftrightarrow> g = f"
| "concerns f (SysListen g _) \<longleftrightarrow> g = f"
| "concerns f (SysAccept g r) \<longleftrightarrow> g = f \<or> r = f"
| "concerns f (SysConnect g _) \<longleftrightarrow> g = f"
| "concerns f (SysSetFl g _) \<longleftrightarrow> g = f"
| "concerns f (SysEpollCreate r) \<longleftrightarrow> r = f"
| "concerns f (SysEpollCtl _ g _) \<longleftrightarrow> g = f"
| "concerns f (SysEpollWait _) \<longleftrightarrow> False"
| "concerns f (SysRecv g _ _ _) \<longleftrightarrow> g = f"
| "concerns f (SysSend g _) \<longleftrightarrow> g = f"
| "concerns f (SysWrite g _) \<longleftrightarrow> g = f"
| "concerns f (SysClose g) \<longleftrightarrow> g = f"
| "concerns f (OutClient _) \<longleftrightarrow> False"
| "concerns f (OutRecv _) \<longleftrightarrow> False"

text \<open>What a call on the descriptor makes of it; \<open>None\<close> where the call is out of order.\<close>

definition goes :: "fd_state \<Rightarrow> fd_state \<Rightarrow> fd_state \<Rightarrow> fd_state option" where
  "goes a b st = (if st = a then Some b else None)"

fun ctl_step :: "ctl_op \<Rightarrow> fd_state \<Rightarrow> fd_state option" where
  "ctl_step EPOLL_CTL_ADD st = (if st = Tamed then Some Reading else goes Quiet Serving st)"
| "ctl_step EPOLL_CTL_MOD st = (if st = Reading then Some Armed else goes Armed Armed st)"
| "ctl_step EPOLL_CTL_DEL st = goes Answered Retired st"

fun fd_step :: "int \<Rightarrow> fd_state \<Rightarrow> syscall \<Rightarrow> fd_state option" where
  "fd_step f st (SysSocket _) = goes Absent Created st"
| "fd_step f st (SysEpollCreate _) = goes Absent EpollInstance st"
| "fd_step f st (SysBind _ _ _) = goes Created Named st"
| "fd_step f st (SysListen _ _) = goes Named Listening st"
| "fd_step f st (SysSetFl _ _) = (if st = Accepted then Some Tamed else goes Listening Quiet st)"
| "fd_step f st (SysAccept g r) =
     (if g = r then None else if g = f then goes Serving Serving st else goes Absent Accepted st)"
| "fd_step f st (SysEpollCtl op _ _) = ctl_step op st"
| "fd_step f st (SysRecv _ _ _ _) = (if st = Reading then Some Reading else goes Armed Armed st)"
| "fd_step f st (SysWrite _ _) = goes Armed Answered st"
| "fd_step f st (SysClose _) = goes Retired Absent st"
| "fd_step f st _ = None"

fun fd_run :: "int \<Rightarrow> fd_state \<Rightarrow> syscall list \<Rightarrow> fd_state option" where
  "fd_run f st [] = Some st"
| "fd_run f st (e # es) =
     (if concerns f e then (case fd_step f st e of None \<Rightarrow> None | Some st' \<Rightarrow> fd_run f st' es)
      else fd_run f st es)"

definition fd_state :: "int \<Rightarrow> syscall list \<Rightarrow> fd_state option" where
  "fd_state f calls = fd_run f Absent calls"

lemma fd_run_append:
  "fd_run f st (es @ es') = (case fd_run f st es of None \<Rightarrow> None | Some st' \<Rightarrow> fd_run f st' es')"
  by (induction es arbitrary: st) (auto split: option.splits)

lemma fd_state_append: "fd_state f es = Some st \<Longrightarrow> fd_state f (es @ es') = fd_run f st es'"
  by (simp add: fd_state_def fd_run_append)

lemma fd_run_recv:
  assumes "\<forall>e\<in>set calls. \<exists>k r bs. e = SysRecv g k r bs" and "g = f \<longrightarrow> st = Reading \<or> st = Armed"
  shows "fd_run f st calls = Some st"
  using assms by (induction calls) (auto simp: goes_def)

section \<open>The invariant\<close>

text \<open>Where a descriptor is in its life between two handlers, read off the program's memory.\<close>

definition role :: "'w reactor \<Rightarrow> int \<Rightarrow> fd_state" where
  "role s f = (if f = epfd s then EpollInstance else case connMap s f of
       Some (Ptr a) \<Rightarrow> (case conns s a of
           Some c \<Rightarrow> if is_listener a c then Serving else if armed c then Armed else Reading
         | None \<Rightarrow> Absent)
     | _ \<Rightarrow> Absent)"

text \<open>The memory and the history agree on every descriptor; each connection that has a descriptor is
  filed under it; and of the open descriptors, those that were not open at the start (\<open>B\<close>) are the
  ones that have a role.\<close>

definition filed :: "'w reactor \<Rightarrow> bool" where
  "filed s \<longleftrightarrow> (\<forall>a c. conns s a = Some c \<longrightarrow> 0 \<le> conn_fd c \<longrightarrow>
     connMap s (conn_fd c) = Some (Ptr a) \<and> conn_fd c \<noteq> epfd s)"

definition fds_ok :: "('w \<Rightarrow> int set) \<Rightarrow> int set \<Rightarrow> 'w reactor \<Rightarrow> bool" where
  "fds_ok opened B s \<longleftrightarrow> 0 \<le> epfd s \<and> filed s \<and>
     (\<forall>f\<ge>0. fd_state f (trace s) = Some (role s f)) \<and>
     (\<forall>f\<ge>0. f \<in> opened (kernel s) \<longleftrightarrow> f \<in> B \<or> role s f \<noteq> Absent) \<and>
     (\<forall>f\<ge>0. f \<in> B \<longrightarrow> role s f = Absent)"

text \<open>How a handler keeps it: it changes the role of one descriptor, and its calls take the automata
  along.\<close>

lemma fds_step:
  assumes ok: "fds_ok opened B s" and tr: "trace s' = trace s @ calls" and ep: "epfd s' = epfd s"
    and filed: "filed s'" and role: "\<And>f. 0 \<le> f \<Longrightarrow> role s' f = (if f = g then st else role s f)"
    and run: "\<And>f. 0 \<le> f \<Longrightarrow> fd_run f (role s f) calls = Some (role s' f)"
    and opened: "\<And>f. 0 \<le> f \<Longrightarrow> f \<in> opened (kernel s') \<longleftrightarrow>
      (if f = g \<and> st = Absent then False else f \<in> opened (kernel s) \<or> f = g \<and> st \<noteq> Absent)"
    and old: "0 \<le> g \<Longrightarrow> g \<notin> B"
  shows "fds_ok opened B s'"
proof -
  have "fd_state f (trace s') = Some (role s' f)" if "0 \<le> f" for f
    using ok run [OF that] that by (simp add: fds_ok_def tr fd_state_append)
  then show ?thesis using assms(1,3,4) role opened old by (auto simp: fds_ok_def)
qed

lemma role_cong:
  assumes "epfd s' = epfd s" and "connMap s' f = connMap s f"
    and "\<And>a. connMap s f = Some (Ptr a) \<Longrightarrow> conns s' a = conns s a"
  shows "role s' f = role s f"
  using assms by (auto simp: role_def split: option.splits ptr.splits)

lemma role_registered:
  assumes "fds_ok opened B s" and "connMap s f = Some (Ptr a)" and "conns s a = Some c" and "f \<noteq> epfd s"
  shows "role s f = (if is_listener a c then Serving else if armed c then Armed else Reading)"
  using assms by (simp add: role_def)

lemma role_present:
  "filed s \<Longrightarrow> conns s a = Some c \<Longrightarrow> 0 \<le> conn_fd c \<Longrightarrow> role s (conn_fd c) \<noteq> Absent"
  by (auto simp: filed_def role_def)

section \<open>The handlers\<close>

text \<open>The descriptor of a registered connection is not the epoll instance's.\<close>

definition owns :: "'w reactor \<Rightarrow> nat \<Rightarrow> conn_obj \<Rightarrow> bool" where
  "owns s a c \<longleftrightarrow> conns s a = Some c \<and> 0 \<le> conn_fd c \<and> connMap s (conn_fd c) = Some (Ptr a) \<and> conn_fd c \<noteq> epfd s"

lemma map_live: "map_ok s \<Longrightarrow> connMap s f = Some (Ptr a) \<Longrightarrow> \<exists>c. conns s a = Some c \<and> conn_fd c = f"
  by (auto simp: map_ok_def)

lemma accept_fds:
  assumes F: "fd_contract os opened" and wf: "conn_wf s" "map_ok s" and ok: "fds_ok opened B s"
    and c: "owns s a c" "is_listener a c"
  shows "within {} (fds_ok opened B) (acceptCallback os (Ptr a) s)"
proof -
  let ?l = "conn_fd c" and ?n = "next_conn s"
  have live: "conns s a = Some c" using c(1) by (simp add: owns_def)
  obtain r fl s1 s2 s' where run: "acceptCallback os (Ptr a) s = Ok s'"
    and r: "r = fst (fst (os_accept os ?l (kernel s)))"
    and k: "kernel (s1 :: 'a reactor) = snd (os_accept os ?l (kernel s))"
      "kernel (s2 :: 'a reactor) = kernel (sys_setfl_nonblock os r s1)"
      "kernel s' = kernel (sys_epoll_ctl os (epfd s) EPOLL_CTL_ADD r
         (Some \<lparr>events = EPOLLET OR EPOLLIN, data_fd = r\<rparr>) s2)"
    and tr: "trace s' = trace s @ [SysAccept ?l r, OutClient r, SysSetFl r fl,
      SysEpollCtl EPOLL_CTL_ADD r (Some \<lparr>events = EPOLLET OR EPOLLIN, data_fd = r\<rparr>)]"
    and m: "conns s' = (conns s)(?n \<mapsto> client_conn r (Ptr (next_inet s)) ?n)"
      "connMap s' = (connMap s)(r \<mapsto> Ptr ?n)" "epfd s' = epfd s"
    using acceptCallback_effect [OF live, of os] by blast
  have "opens opened (kernel s) r (kernel s1)" using F by (simp add: fd_contract_def r k(1))
  moreover have "opened (kernel s') = opened (kernel s1)" by (simp add: k fd_frame [OF F])
  ultimately have acc: "r = -1 \<and> opened (kernel s') = opened (kernel s) \<or>
      0 \<le> r \<and> r \<notin> opened (kernel s) \<and> opened (kernel s') = insert r (opened (kernel s))"
    by (simp add: opens_def)
  have new: "role s r = Absent" "r \<notin> B" "r \<noteq> epfd s" "r \<noteq> ?l" if "0 \<le> r"
  proof -
    have out: "r \<notin> opened (kernel s)" using acc that by auto
    then show 1: "role s r = Absent" "r \<notin> B" using ok that by (auto simp: fds_ok_def)
    show "r \<noteq> epfd s" using 1 by (auto simp: role_def)
    show "r \<noteq> ?l" using 1 c by (auto simp: role_def owns_def)
  qed
  have fresh: "conns s ?n = None" using wf(1) by (simp add: conn_wf_def)
  have role: "role s' f = (if f = r then Reading else role s f)" if "0 \<le> f" for f
  proof (cases "f = r")
    case True
    then show ?thesis using new that
      by (simp add: role_def m is_listener_def armed_def)
  next
    case False
    moreover have "connMap s f \<noteq> Some (Ptr ?n)" using map_live [OF wf(2)] fresh by fastforce
    ultimately show ?thesis by (auto simp: m intro!: role_cong)
  qed
  show ?thesis unfolding run within_simps
  proof (rule fds_step [OF ok tr m(3), where g = r and st = Reading])
    have "filed s" using ok by (simp add: fds_ok_def)
    moreover from this have "conn_fd d \<noteq> r" if "conns s b = Some d" "0 \<le> conn_fd d" for b d
      using role_present [OF _ that] new that by auto
    ultimately show "filed s'" using new fresh by (auto simp: filed_def m split: if_splits)
    show "fd_run f (role s f) [SysAccept ?l r, OutClient r, SysSetFl r fl,
      SysEpollCtl EPOLL_CTL_ADD r (Some \<lparr>events = EPOLLET OR EPOLLIN, data_fd = r\<rparr>)] = Some (role s' f)" if "0 \<le> f" for f
      using role [OF that] new that c role_registered [OF ok, of ?l a c] by (auto simp: goes_def owns_def)
  qed (use role acc new in auto)
qed

text \<open>A handler of one connection: the roles of the other descriptors stay.\<close>

lemma role_other:
  assumes "map_ok s" and "conns s a = Some c" and "f \<noteq> conn_fd c" and "epfd s' = epfd s"
    and "connMap s' f = connMap s f" and "\<And>b. b \<noteq> a \<Longrightarrow> conns s' b = conns s b"
  shows "role s' f = role s f"
proof (rule role_cong)
  fix b assume "connMap s f = Some (Ptr b)"
  then have "b \<noteq> a" using map_live [OF assms(1)] assms(2,3) by fastforce
  then show "conns s' b = conns s b" by (rule assms(6))
qed (use assms in auto)

lemma recv_fds:
  assumes F: "fd_contract os opened" and wf: "map_ok s" and ok: "fds_ok opened B s"
    and c: "owns s a c" "is_client a c" "inEpoll c"
  shows "within {OutOfBounds} (fds_ok opened B) (recvCallback os (Ptr a) s)"
proof -
  let ?g = "conn_fd c" and ?K = "\<lambda>w. opened w = opened (kernel s)"
  have live: "conns s a = Some c" using c(1) by (simp add: owns_def)
  have "opened w' = opened w" if "os_recv os ?g k w = (ans, w')" for k w ans w'
    using that fd_frame(8) [OF F, of ?g k w] by simp
  then have "within {OutOfBounds} (\<lambda>s'. \<exists>b n str. recv_effect os ?K a c s s' b n str) (recvCallback os (Ptr a) s)"
    by (intro recvCallback_effect live c(3)) auto
  then show ?thesis
  proof (rule within_mono)
    fix s' assume "\<exists>b n str. recv_effect os ?K a c s s' b n str"
    then obtain b n str where eff: "recv_effect os ?K a c s s' b n str" by blast
    then have m: "conns s' = (conns s)(a \<mapsto> received c b n)" "connMap s' = connMap s" "epfd s' = epfd s"
      and k: "opened (kernel s') = opened (kernel s)"
      by (auto simp: recv_effect_def fd_frame [OF F])
    let ?mod = "SysEpollCtl EPOLL_CTL_MOD ?g (Some \<lparr>events = EPOLLOUT, data_fd = ?g\<rparr>)"
    obtain calls where tr: "trace s' = trace s @ (calls @ [OutRecv str, ?mod])"
      and calls: "\<forall>e\<in>set calls. \<exists>k r bs. e = SysRecv ?g k r bs"
      using eff by (auto simp: recv_effect_def)
    have old: "role s ?g = (if armed c then Armed else Reading)"
      using role_registered [OF ok] c by (simp add: owns_def is_client_def is_listener_def)
    have role: "role s' f = (if f = ?g then Armed else role s f)" for f
    proof (cases "f = ?g")
      case True
      then show ?thesis using c by (simp add: role_def m owns_def is_client_def is_listener_def received_def)
        (simp add: received_def [symmetric])
    next
      case False
      then show ?thesis by (auto simp: m intro!: role_other [OF wf live])
    qed
    show "fds_ok opened B s'"
    proof (rule fds_step [OF ok tr m(3), where g = ?g and st = Armed])
      show "filed s'" using ok c by (auto simp: fds_ok_def filed_def m received_def owns_def split: if_splits)
      show "fd_run f (role s f) (calls @ [OutRecv str, ?mod]) = Some (role s' f)" for f
        using fd_run_recv [OF calls, of f "role s f"] old role by (auto simp: fd_run_append goes_def)
    qed (use role ok c old in \<open>auto simp: k fds_ok_def owns_def split: if_splits\<close>)
  qed
qed

lemma send_fds:
  assumes F: "fd_contract os opened" and wf: "map_ok s" "inets_owned s" and ok: "fds_ok opened B s"
    and c: "owns s a c" "conn_ok a c" "sendable c"
  shows "within {} (fds_ok opened B) (sendCallback os (Ptr a) s)"
proof -
  let ?g = "conn_fd c"
  have live: "conns s a = Some c" using c(1) by (simp add: owns_def)
  obtain b i where ip: "inetAddr c = Ptr b" "inets s b = Some i"
    using wf(2) live unfolding inets_owned_def by blast
  obtain str where str: "cstr (rbuffer c) = Ok str" using c(3) by (auto simp: sendable_defs)
  obtain s1 s2 s3 s' where run: "sendCallback os (Ptr a) s = Ok s'"
    and k: "kernel (s1 :: 'a reactor) = kernel s"
      "kernel (s2 :: 'a reactor) = kernel (sys_write os ?g (tx_data c str) s1)"
      "kernel (s3 :: 'a reactor) = kernel (sys_epoll_ctl os (epfd s) EPOLL_CTL_DEL ?g None s2)"
      "kernel s' = kernel (sys_close os ?g s3)"
    and tr: "trace s' = trace s @ [SysWrite ?g (tx_data c str), SysEpollCtl EPOLL_CTL_DEL ?g None, SysClose ?g]"
    and m: "conns s' = (conns s)(a := None)" "connMap s' = (connMap s)(?g \<mapsto> Null)" "epfd s' = epfd s"
    using sendCallback_effect [OF live _ ip _ _ str, of os] c(2,3)
    unfolding conn_ok_def sendable_defs by blast
  have opened: "opened (kernel s') = opened (kernel s) - {?g}" by (simp add: k fd_frame [OF F])
  have old: "role s ?g = Armed"
    using role_registered [OF ok] c by (simp add: owns_def conn_ok_def is_listener_def is_client_def sendable_defs)
  have role: "role s' f = (if f = ?g then Absent else role s f)" for f
    using role_other [OF wf(1) live, of f s'] c by (auto simp: role_def m owns_def)
  have alone: "conn_fd d \<noteq> ?g" if "conns s e = Some d" "0 \<le> conn_fd d" "e \<noteq> a" for e d
    using ok c that by (auto simp: fds_ok_def filed_def owns_def) (metis option.inject ptr.inject)
  show ?thesis unfolding run within_simps
  proof (rule fds_step [OF ok tr m(3), where g = ?g and st = Absent])
    show "filed s'" using ok alone by (auto simp: fds_ok_def filed_def m)
    show "fd_run f (role s f) [SysWrite ?g (tx_data c str), SysEpollCtl EPOLL_CTL_DEL ?g None, SysClose ?g] =
      Some (role s' f)" for f
      using old role by (auto simp: goes_def)
  qed (use role ok c old in \<open>auto simp: opened fds_ok_def owns_def\<close>)
qed

section \<open>Waiting\<close>

text \<open>\<open>wait\<close> stores reported events, and does nothing that a descriptor's role depends on.\<close>

definition revent_only :: "'w reactor \<Rightarrow> 'w reactor \<Rightarrow> bool" where
  "revent_only s s' \<longleftrightarrow> kernel s' = kernel s \<and> trace s' = trace s \<and> epfd s' = epfd s \<and> inets s' = inets s \<and>
     (\<forall>f a. connMap s' f = Some (Ptr a) \<longleftrightarrow> connMap s f = Some (Ptr a)) \<and>
     (\<forall>a. rel_option (\<lambda>c c'. \<exists>e. c' = c\<lparr>revent := e\<rparr>) (conns s a) (conns s' a))"

lemma revent_only_refl: "revent_only s s"
proof -
  have "\<exists>e. c = c\<lparr>revent := e\<rparr>" for c :: conn_obj by (rule exI [of _ "revent c"]) simp
  then show ?thesis by (simp add: revent_only_def option.rel_refl)
qed

lemma revent_only_trans: "revent_only s s1 \<Longrightarrow> revent_only s1 s2 \<Longrightarrow> revent_only s s2"
proof -
  assume 1: "revent_only s s1" and 2: "revent_only s1 s2"
  have "rel_option (\<lambda>c c'. \<exists>e. c' = c\<lparr>revent := e\<rparr>) (conns s a) (conns s2 a)" for a
  proof -
    from 1 2 have "rel_option (\<lambda>c c'. \<exists>e. c' = c\<lparr>revent := e\<rparr>) (conns s a) (conns s1 a)"
      "rel_option (\<lambda>c c'. \<exists>e. c' = c\<lparr>revent := e\<rparr>) (conns s1 a) (conns s2 a)"
      by (simp_all add: revent_only_def)
    then show ?thesis by (cases "conns s a"; cases "conns s1 a"; cases "conns s2 a") auto
  qed
  then show ?thesis using 1 2 by (simp add: revent_only_def)
qed

lemma wait_loop_revent: "wait_loop evs rs s = Ok (rs', s') \<Longrightarrow> revent_only s s'"
proof (induction evs arbitrary: rs s)
  case (Cons ev evs)
  obtain p s1 where at: "connMap_at (data_fd ev) s = (p, s1)" by (metis surj_pair)
  with Cons.prems obtain s2 where set: "setREvent p (events ev) s1 = Ok s2"
    and rest: "wait_loop evs (rs @ [p]) s2 = Ok (rs', s')"
    by (auto simp: andThen_eq_Ok)
  have "revent_only s s1"
    using at revent_only_refl [of s] by (auto simp: connMap_at_def revent_only_def split: option.splits if_splits)
  moreover have "revent_only s1 s2"
    using set revent_only_refl [of s1]
    by (auto simp: setREvent_def update_conn_def read_conn_def andThen_eq_Ok deref_eq_Ok revent_only_def)
  ultimately show ?case using Cons.IH [OF rest] revent_only_trans by blast
qed (simp add: revent_only_refl)

lemma revent_role:
  assumes "revent_only s s'"
  shows "role s' = role s"
proof
  fix f
  have rel: "rel_option (\<lambda>c c'. \<exists>e. c' = c\<lparr>revent := e\<rparr>) (conns s a) (conns s' a)"
    and map: "connMap s' f = Some (Ptr a) \<longleftrightarrow> connMap s f = Some (Ptr a)" for a
    using assms by (simp_all add: revent_only_def)
  have ep: "epfd s' = epfd s" using assms by (simp add: revent_only_def)
  show "role s' f = role s f"
  proof (cases "\<exists>a. connMap s f = Some (Ptr a)")
    case True
    then obtain a where "connMap s f = Some (Ptr a)" by blast
    then show ?thesis using rel [of a] map [of a] ep
      by (cases "conns s a"; cases "conns s' a") (auto simp: role_def is_listener_def armed_def)
  next
    case False
    then have "\<nexists>a. connMap s' f = Some (Ptr a)" using map by blast
    then show ?thesis using False ep by (auto simp: role_def split: option.splits ptr.splits)
  qed
qed

lemma wait_fds:
  assumes F: "fd_contract os opened" and ok: "fds_ok opened B s" and run: "wait os t s = Ok (rs, s')"
  shows "fds_ok opened B s'"
proof -
  obtain n evs s1 where w: "sys_epoll_wait os (epfd s) MAX_EPOLL_CONN t s = ((n, evs), s1)"
    by (metis surj_pair)
  have s1: "conns s1 = conns s" "connMap s1 = connMap s" "epfd s1 = epfd s" "trace s1 = trace s @ [SysEpollWait n]"
    "opened (kernel s1) = opened (kernel s)"
    using w fd_frame(7) [OF F, of "epfd s" MAX_EPOLL_CONN t s] by (auto simp: sys_epoll_wait_def log_def split: prod.splits)
  have "wait_loop (take (nat n) evs) [] s1 = Ok (rs, s')"
    using run w by (auto simp: wait_def split: if_splits)
  then have rev: "revent_only s1 s'" by (rule wait_loop_revent)
  have role: "role s' = role s"
  proof -
    have "role s1 f = role s f" for f using s1 by (intro role_cong) auto
    then show ?thesis using revent_role [OF rev] by auto
  qed
  have "filed s'"
    unfolding filed_def
  proof (intro allI impI)
    fix a c assume "conns s' a = Some c" "0 \<le> conn_fd c"
    moreover have "rel_option (\<lambda>c c'. \<exists>e. c' = c\<lparr>revent := e\<rparr>) (conns s a) (conns s' a)"
      using rev s1 by (simp add: revent_only_def)
    ultimately obtain d where d: "conns s a = Some d" "conn_fd c = conn_fd d" "0 \<le> conn_fd d"
      by (cases "conns s a") auto
    then have "connMap s (conn_fd d) = Some (Ptr a) \<and> conn_fd d \<noteq> epfd s"
      using ok by (auto simp: fds_ok_def filed_def)
    then show "connMap s' (conn_fd c) = Some (Ptr a) \<and> conn_fd c \<noteq> epfd s'"
      using rev s1 by (simp add: revent_only_def d(2))
  qed
  moreover have "kernel s' = kernel s1" "trace s' = trace s @ [SysEpollWait n]" "epfd s' = epfd s"
    using rev s1 by (auto simp: revent_only_def)
  ultimately show ?thesis using ok s1(5) by (simp add: fds_ok_def role fd_state_append)
qed

section \<open>The event loop keeps the ledger\<close>

definition ledger :: "'w os \<Rightarrow> 'w watch \<Rightarrow> ('w \<Rightarrow> int set) \<Rightarrow> int set \<Rightarrow> 'w reactor \<Rightarrow> bool" where
  "ledger os watch opened B s \<longleftrightarrow> served os watch s \<and> fd_contract os opened \<and> fds_ok opened B s"

lemma ledger_owns:
  assumes "ledger os watch opened B s" and "pending watch s p" and "p = Ptr a" and "conns s a = Some c"
  shows "owns s a c"
proof -
  have inv: "reactor_inv watch s" and ok: "fds_ok opened B s" using assms(1) by (auto simp: ledger_def served_def)
  from inv assms(2) have "0 \<le> conn_fd c \<and> connMap s (conn_fd c) = Some (Ptr a)"
    by (rule pendingE) (use inv assms(3,4) in \<open>auto simp: reactor_inv_def watch_ok_def\<close>)
  then show ?thesis using ok assms(4) by (auto simp: owns_def fds_ok_def filed_def)
qed

text \<open>The handler that a pending connection runs, and the connection's ownership of its descriptor.\<close>

lemma exe_recv_handler:
  assumes L: "ledger os watch opened B s" and p: "pending watch s p"
  obtains (client) a c where "p = Ptr a" "owns s a c" "conn_ok a c" "is_client a c"
      "exeRecvCallback (run_callback os) p s = recvCallback os (Ptr a) s"
  | (listener) a c where "p = Ptr a" "owns s a c" "conn_ok a c" "is_listener a c"
      "exeRecvCallback (run_callback os) p s = acceptCallback os (Ptr a) s"
proof -
  have inv: "reactor_inv watch s" using L by (simp add: ledger_def served_def)
  from inv p show ?thesis
    by (cases rule: recv_handler [where os = os]) (use that ledger_owns [OF L p] in metis)+
qed

lemma exe_send_handler:
  assumes L: "ledger os watch opened B s" and p: "pending watch s p"
    and e: "getREvent p s = Ok e" "has_flag (events e) EPOLLOUT"
  obtains a c where "p = Ptr a" "owns s a c" "conn_ok a c" "sendable c"
    "exeSendCallback (run_callback os) p s = sendCallback os (Ptr a) s"
proof -
  have inv: "reactor_inv watch s" using L by (simp add: ledger_def served_def)
  from inv p e show ?thesis
    by (cases rule: send_handler [where os = os]) (use that ledger_owns [OF L p] in metis)
qed

lemma exe_recv_fds:
  assumes L: "ledger os watch opened B s" and p: "pending watch s p"
  shows "within {OutOfBounds} (fds_ok opened B) (exeRecvCallback (run_callback os) p s)"
proof -
  have F: "fd_contract os opened" and ok: "fds_ok opened B s" and wf: "conn_wf s" "map_ok s"
    using L by (auto simp: ledger_def served_def reactor_inv_def)
  from L p show ?thesis
  proof (cases rule: exe_recv_handler)
    case (client a c)
    then show ?thesis using recv_fds [OF F wf(2) ok client(2)] by (simp add: conn_ok_def)
  next
    case (listener a c)
    then show ?thesis using accept_fds [OF F wf ok listener(2)] by (auto elim: within_weaken)
  qed
qed

lemma exe_send_fds:
  assumes L: "ledger os watch opened B s" and p: "pending watch s p"
    and e: "getREvent p s = Ok e" "has_flag (events e) EPOLLOUT"
  shows "within {OutOfBounds} (fds_ok opened B) (exeSendCallback (run_callback os) p s)"
  using assms
proof (cases rule: exe_send_handler)
  case (1 a c)
  then show ?thesis using send_fds [of os opened s B a c] L
    by (auto simp: ledger_def served_def reactor_inv_def elim: within_weaken)
qed

interpretation ledger: callbacks os "run_callback os" "ledger os watch opened B" "pending watch" "{OutOfBounds}"
  for os watch opened B
proof (rule server.strengthened [where Q = "\<lambda>s. fd_contract os opened \<and> fds_ok opened B s"], goal_cases)
  case (2 s t rs s')
  then show ?case using wait_fds by (auto simp: ledger_def)
next
  case (3 s p)
  then show ?case using exe_recv_fds [OF 3] by (simp add: ledger_def)
next
  case (4 s p e)
  then show ?case using exe_send_fds [OF 4] by (simp add: ledger_def)
qed (simp add: ledger_def)

section \<open>Starting up\<close>

lemma boot_fds:
  assumes F: "fd_contract os opened" and run: "boot os lm (fresh_process w) = Ok s"
  shows "fds_ok opened (opened w) s"
  using run
proof (cases rule: boot_Ok)
  case (1 r f fl s1 s2)
  have "opens opened w (fst (os_epoll_create os w)) (snd (os_epoll_create os w))" using F by (simp add: fd_contract_def)
  then have "opens opened w r (kernel s1)" by (simp add: 1(3))
  then have new: "0 \<le> r" "r \<notin> opened w" "0 \<le> f" "f \<notin> opened w" "f \<noteq> r" "opened (kernel s) = insert f (insert r (opened w))"
    using 1(12) [OF F] 1(1,2) by (auto simp: opens_def 1(13) fd_frame [OF F])
  have "is_listener 0 (listener_conn f (Ptr 0) 0)"
    by (simp add: is_listener_def listener_conn_def Connection_fd_def Connection_default_def)
  then have role: "role s g = (if g = r then EpollInstance else if g = f then Serving else Absent)" for g
    by (simp add: role_def 1(4,6,9))
  show ?thesis unfolding fds_ok_def role
    using new by (auto simp: filed_def 1(4,6,9,10) fd_state_def goes_def split: if_splits)
qed

lemma test_main_ledger:
  assumes "epoll_contract os watch" and "fd_contract os opened" and "watch w = Map.empty"
    and "test_main os lm n (fresh_process w) = Ok s"
  shows "ledger os watch opened (opened w) s"
  by (rule test_main_inv [OF assms(4) _ ledger.start_within])
    (use boot_inv [OF assms(1,3)] boot_fds [OF assms(2)] assms(1,2) in \<open>simp add: ledger_def served_def\<close>)

section \<open>Properties\<close>



text \<open>
  C12: No descriptor is lost or shared. At the end of every round the process has open, besides what it
  started with, exactly its epoll instance and one descriptor for each connection object that has
  one, all different.
\<close>

theorem descriptors_are_owned:
  assumes "epoll_contract os watch" and "fd_contract os opened" and "watch w = Map.empty"
    and "test_main os loop_mem n (fresh_process w) = Ok s"
  shows "(\<forall>f\<ge>0. f \<in> opened (kernel s) \<longleftrightarrow>
      f \<in> opened w \<or> f = epfd s \<or> (\<exists>a c. conns s a = Some c \<and> conn_fd c = f)) \<and>
    epfd s \<notin> opened w \<and>
    (\<forall>a c. conns s a = Some c \<and> 0 \<le> conn_fd c \<longrightarrow> conn_fd c \<notin> opened w \<and> conn_fd c \<noteq> epfd s \<and>
      (\<forall>b d. conns s b = Some d \<and> conn_fd d = conn_fd c \<longrightarrow> b = a))"
proof -
  from test_main_ledger [OF assms] have ok: "fds_ok opened (opened w) s" and wf: "map_ok s"
    by (simp_all add: ledger_def served_def reactor_inv_def)
  then have filed: "filed s" and ep: "role s (epfd s) = EpollInstance"
    by (simp_all add: fds_ok_def role_def)
  have "role s f \<noteq> Absent \<longleftrightarrow> f = epfd s \<or> (\<exists>a c. conns s a = Some c \<and> conn_fd c = f)" if "0 \<le> f" for f
  proof
    assume "role s f \<noteq> Absent"
    then show "f = epfd s \<or> (\<exists>a c. conns s a = Some c \<and> conn_fd c = f)"
      using map_live [OF wf, of f] by (auto simp: role_def split: option.splits ptr.splits)
  next
    assume "f = epfd s \<or> (\<exists>a c. conns s a = Some c \<and> conn_fd c = f)"
    then show "role s f \<noteq> Absent" using role_present [OF filed] that ep by auto
  qed
  then have 1: "\<forall>f\<ge>0. f \<in> opened (kernel s) \<longleftrightarrow>
      f \<in> opened w \<or> f = epfd s \<or> (\<exists>a c. conns s a = Some c \<and> conn_fd c = f)"
    using ok by (simp add: fds_ok_def)
  have 2: "epfd s \<notin> opened w" using ok ep by (auto simp: fds_ok_def)
  have 3: "conn_fd c \<notin> opened w \<and> conn_fd c \<noteq> epfd s \<and> (\<forall>b d. conns s b = Some d \<and> conn_fd d = conn_fd c \<longrightarrow> b = a)"
    if "conns s a = Some c" "0 \<le> conn_fd c" for a c
  proof (intro conjI allI impI)
    show "conn_fd c \<notin> opened w" "conn_fd c \<noteq> epfd s"
      using ok filed role_present [OF filed that] that by (auto simp: fds_ok_def filed_def)
    fix b d assume "conns s b = Some d \<and> conn_fd d = conn_fd c"
    then have "connMap s (conn_fd c) = Some (Ptr b)" "connMap s (conn_fd c) = Some (Ptr a)"
      using filed that unfolding filed_def by metis+
    then show "b = a" by simp
  qed
  show ?thesis using 1 2 3 by (intro conjI) blast+
qed

theorem descriptors_are_owned_witness:
  "\<exists>s. test_main (sim_os True) Null 1 (fresh_process sim_visit) = Ok s \<and> 4 \<in> sim_open (kernel s) \<and>
     (\<forall>f\<ge>0. f \<in> sim_open (kernel s) \<longleftrightarrow> f = epfd s \<or> (\<exists>a c. conns s a = Some c \<and> conn_fd c = f))"
proof -
  obtain s c where s: "test_main (sim_os True) Null 1 (fresh_process sim_visit) = Ok s" "conns s 1 = Some c" "conn_fd c = 4"
    using simulated_client by blast
  from descriptors_are_owned [OF sim_contract sim_fds _ s(1)]
  have "\<forall>f\<ge>0. f \<in> sim_open (kernel s) \<longleftrightarrow> f = epfd s \<or> (\<exists>a c. conns s a = Some c \<and> conn_fd c = f)"
    by (simp add: sim_visit_def sim0_def)
  then show ?thesis using s by auto
qed

end
