(* ===== verification/Echo_Spec.thy ===== *)
theory Echo_Spec
  imports Descriptors
begin

text \<open>
  What the server owes its clients, as a function of the history: \<open>heard f\<close> reads off the system
  calls what arrived on the descriptor \<open>f\<close> since it was accepted, \<open>echo\<close> computes from it the bytes
  the server must write, \<open>heard_text\<close> the text it must print. \<open>hears_ok\<close> says that the memory of the
  connections agrees with the history and that every answer so far was the right one; all handlers
  keep it, in whatever order the event loop runs them.
\<close>

section \<open>The specification\<close>

text \<open>
  What arrived on a descriptor: the number of bytes of earlier bursts, the bytes of the latest one,
  and whether that one is over. A burst is what one run of the receive loop reads.
\<close>

record session =
  earlier :: nat
  burst :: "byte list"
  over :: bool

definition new_session :: session where
  "new_session = \<lparr>earlier = 0, burst = [], over = True\<rparr>"

definition hears :: "int \<Rightarrow> session \<Rightarrow> syscall \<Rightarrow> session" where
  "hears f x e = (case e of
       SysAccept g r \<Rightarrow> if r = f then new_session else x
     | SysRecv g k r bs \<Rightarrow> if g \<noteq> f then x
         else if over x then \<lparr>earlier = earlier x + length (burst x), burst = bs, over = False\<rparr>
         else x\<lparr>burst := burst x @ bs\<rparr>
     | SysEpollCtl op g ev \<Rightarrow> if g = f then x\<lparr>over := True\<rparr> else x
     | _ \<Rightarrow> x)"

definition heard :: "int \<Rightarrow> syscall list \<Rightarrow> session" where
  "heard f calls = foldl (hears f) new_session calls"

definition heard_total :: "session \<Rightarrow> nat" where
  "heard_total x = earlier x + length (burst x)"

text \<open>A burst is text up to its first NUL; one that follows an earlier burst is lost.\<close>

definition heard_text :: "session \<Rightarrow> byte list" where
  "heard_text x = (if earlier x = 0 then takeWhile (\<lambda>b. b \<noteq> 0) (burst x) else [])"

text \<open>The answer: the text, a NUL, and whatever the new connection's memory held (\<open>None\<close>), cut off
  at the number of bytes that arrived.\<close>

definition echo :: "session \<Rightarrow> cell list" where
  "echo x = take (heard_total x) (map Some (heard_text x) @ Some 0 #
     replicate (SEND_BUFFER_LENGTH - Suc (length (heard_text x))) None)"

text \<open>An output of the server is right if it is the specified one for what was heard before it. What is
  printed is about the descriptor of the \<open>recv\<close> just before it.\<close>

definition answer_ok :: "syscall list \<Rightarrow> syscall \<Rightarrow> bool" where
  "answer_ok before e = (case e of
       SysWrite f data \<Rightarrow> data = echo (heard f before)
     | OutRecv txt \<Rightarrow> before \<noteq> [] \<and>
         (case last before of SysRecv f k r bs \<Rightarrow> txt = heard_text (heard f before) | _ \<Rightarrow> False)
     | _ \<Rightarrow> True)"

fun answered :: "syscall list \<Rightarrow> syscall list \<Rightarrow> bool" where
  "answered before [] \<longleftrightarrow> True"
| "answered before (e # es) \<longleftrightarrow> answer_ok before e \<and> answered (before @ [e]) es"

lemma answered_append: "answered b (u @ v) \<longleftrightarrow> answered b u \<and> answered (b @ u) v"
  by (induction u arbitrary: b) auto

lemma answered_iff: "answered [] t \<longleftrightarrow> (\<forall>pre e post. t = pre @ e # post \<longrightarrow> answer_ok pre e)"
proof -
  have "answered b t \<longleftrightarrow> (\<forall>pre e post. t = pre @ e # post \<longrightarrow> answer_ok (b @ pre) e)" for b
  proof (induction t arbitrary: b)
    case (Cons a t)
    show ?case
    proof
      assume L: "answered b (a # t)"
      then have "\<forall>pre e post. t = pre @ e # post \<longrightarrow> answer_ok ((b @ [a]) @ pre) e" using Cons.IH by auto
      then show "\<forall>pre e post. a # t = pre @ e # post \<longrightarrow> answer_ok (b @ pre) e"
        using L by (auto simp: Cons_eq_append_conv)
    next
      assume R: "\<forall>pre e post. a # t = pre @ e # post \<longrightarrow> answer_ok (b @ pre) e"
      have "answer_ok (b @ [a] @ pre) e" if "t = pre @ e # post" for pre e post
        using R [rule_format, of "a # pre" e post] that by simp
      moreover have "answer_ok b a" using R [rule_format, of "[]" a t] by simp
      ultimately show "answered b (a # t)" using Cons.IH [of "b @ [a]"] by auto
    qed
  qed simp
  from this [of "[]"] show ?thesis by simp
qed

text \<open>A message without NUL that arrives in one burst is answered as it is.\<close>

lemma echo_whole: "earlier x = 0 \<Longrightarrow> 0 \<notin> set (burst x) \<Longrightarrow> echo x = map Some (burst x) \<and> heard_text x = burst x"
proof -
  assume x: "earlier x = 0" "0 \<notin> set (burst x)"
  then have "heard_text x = burst x" by (auto simp: heard_text_def takeWhile_eq_all_conv)
  with x show ?thesis by (simp add: echo_def heard_total_def)
qed

section \<open>Reading the history\<close>

lemma heard_append: "heard f (t @ u) = foldl (hears f) (heard f t) u"
  by (simp add: heard_def)

lemma hears_other: "\<not> concerns f e \<Longrightarrow> hears f x e = x"
  by (auto simp: hears_def split: syscall.splits)

lemma heard_other: "\<forall>e\<in>set calls. \<not> concerns f e \<Longrightarrow> heard f (t @ calls) = heard f t"
  by (induction calls rule: rev_induct) (simp_all add: heard_append hears_other)

text \<open>A run of the receive loop is one burst.\<close>

lemma heard_burst:
  assumes "only_recv f calls" and "calls \<noteq> []" and "over (heard f t)"
  shows "heard f (t @ calls) =
    \<lparr>earlier = heard_total (heard f t), burst = received_bytes calls, over = False\<rparr>"
  using assms(1,2)
proof (induction calls rule: rev_induct)
  case (snoc e calls)
  obtain k r bs where e: "e = SysRecv f k r bs" using snoc.prems(1) by (auto simp: only_recv_def)
  show ?case
  proof (cases "calls = []")
    case True
    then show ?thesis using assms(3) e by (simp add: heard_append hears_def heard_total_def)
  next
    case False
    then have "heard f (t @ calls) = \<lparr>earlier = heard_total (heard f t), burst = received_bytes calls, over = False\<rparr>"
      using snoc by (auto simp: only_recv_def)
    then show ?thesis
      by (simp add: e heard_append hears_def)
  qed
qed simp

lemma answered_recv: "only_recv f calls \<Longrightarrow> answered b calls"
  by (induction calls arbitrary: b) (auto simp: only_recv_def answer_ok_def)

section \<open>The receive loop\<close>

text \<open>A message reads as its text.\<close>

lemma rx_message_text: "cstr (rx_message off msg) = Ok txt \<Longrightarrow> txt = rx_text off msg"
  by (cases off) (auto simp: rx_message_def rx_text_def dest: cstr_zero_filled)

text \<open>The one case in which it has no end: the message fills the array and has no NUL of its own.\<close>

definition unterminated :: "nat \<Rightarrow> byte list \<Rightarrow> bool" where
  "unterminated off msg \<longleftrightarrow> off = 0 \<and> length msg = RECV_BUFFER_LENGTH \<and> 0 \<notin> set msg"

lemma cstr_rx_message_cases:
  assumes "off + length msg \<le> RECV_BUFFER_LENGTH"
  shows "cstr (rx_message off msg) = (if unterminated off msg then Fault OutOfBounds else Ok (rx_text off msg))"
proof (cases "unterminated off msg")
  case True
  then have "cstr (rx_message off msg) = Fault OutOfBounds"
    by (intro cstr_no_NUL) (auto simp: unterminated_def rx_message_def)
  then show ?thesis using True by simp
next
  case False
  have "\<exists>t. cstr (rx_message off msg) = Ok t"
  proof (cases "off + length msg < RECV_BUFFER_LENGTH")
    case True
    then show ?thesis using cstr_rx_message by blast
  next
    case full: False
    show ?thesis
    proof (cases off)
      case 0
      then obtain pre post where "msg = pre @ 0 # post"
        using False full assms by (auto simp: unterminated_def in_set_conv_decomp)
      then show ?thesis using 0 cstr_takeWhile [of pre] by (simp add: rx_message_def)
    qed (simp add: rx_message_def)
  qed
  then show ?thesis using False rx_message_text by auto
qed

lemma recv_loop_burst:
  assumes R: "recv_contract os" "recv_soft os"
    and s: "conns s a = Some c" "rlen c = int off" "off \<le> RECV_BUFFER_LENGTH"
  shows "holds (\<lambda>s1. \<exists>b n. rx_frame a c s s1 b n \<and> 0 \<le> n \<and> n \<le> int RECV_BUFFER_LENGTH \<and>
      (\<exists>m calls. burst_read os (conn_fd c) RECV_BUFFER_LENGTH off m calls (kernel s1) \<and> trace s1 = trace s @ calls \<and>
         b = rx_message off m \<and> n = int (off + length m)))
    (recv_loop os (Ptr a) (s\<lparr>conns := (conns s)(a \<mapsto> c\<lparr>rbuffer := rx_zeros\<rparr>)\<rparr>))"
    (is "holds _ (recv_loop os (Ptr a) ?s0)")
proof -
  have live: "rx_live a (conn_fd c) ?s0" "rx_len a ?s0 = int off" using s by (simp_all add: rx_live_def rx_len_def)
  note frame = recv_loop_cleared [where K = "\<lambda>_. True", OF s(1) TrueI TrueI]
  show ?thesis
  proof (rule holds_mono [OF holds_within_conj [OF rx.loop_burst [OF R live s(3)] frame]], goal_cases)
    case (1 s1)
    then obtain b n m calls where fr: "rx_frame a c s s1 b n" "0 \<le> n" "n \<le> int RECV_BUFFER_LENGTH"
      and m: "burst_read os (conn_fd c) RECV_BUFFER_LENGTH off m calls (kernel s1)" "trace s1 = trace s @ calls"
        "rx_len a s1 = int (off + length m)"
        "rx_buf a s1 = take off (rx_buf a ?s0) @ map Some m @ drop (off + length m) (rx_buf a ?s0)"
      by auto
    have "b = rx_message off m" "n = int (off + length m)"
      using fr(1) m(3,4) s(3) by (simp_all add: rx_frame_def rx_buf_def rx_len_def rx_message_def min_def)
    then show ?case using fr m(1,2) by blast
  qed
qed

text \<open>And what \<open>recvCallback\<close> makes of it.\<close>

lemma recv_burst_result:
  assumes R: "recv_contract os" "recv_soft os"
    and s: "conns s a = Some c" "inEpoll c" "rlen c = int off" "off \<le> RECV_BUFFER_LENGTH"
  obtains s1 msg calls where "recv_loop os (Ptr a) (s\<lparr>conns := (conns s)(a \<mapsto> c\<lparr>rbuffer := rx_zeros\<rparr>)\<rparr>) = Ok s1"
    "burst_read os (conn_fd c) RECV_BUFFER_LENGTH off msg calls (kernel s1)" "trace s1 = trace s @ calls"
    "rx_frame a c s s1 (rx_message off msg) (int (off + length msg))"
    "unterminated off msg \<Longrightarrow> recvCallback os (Ptr a) s = Fault OutOfBounds"
    "\<not> unterminated off msg \<Longrightarrow> holds (\<lambda>s'. recv_effect os (\<lambda>w. w = kernel s1) a c s s' (rx_message off msg)
         (int (off + length msg)) (rx_text off msg) \<and>
       trace s' = trace s1 @ [OutRecv (rx_text off msg), SysEpollCtl EPOLL_CTL_MOD (conn_fd c)
         (Some \<lparr>events = EPOLLOUT, data_fd = conn_fd c\<rparr>)]) (recvCallback os (Ptr a) s)"
proof -
  from recv_loop_burst [OF R s(1,3,4)] obtain s1 msg calls where
    run: "recv_loop os (Ptr a) (s\<lparr>conns := (conns s)(a \<mapsto> c\<lparr>rbuffer := rx_zeros\<rparr>)\<rparr>) = Ok s1"
    and fr: "rx_frame a c s s1 (rx_message off msg) (int (off + length msg))"
    and burst: "burst_read os (conn_fd c) RECV_BUFFER_LENGTH off msg calls (kernel s1)" "trace s1 = trace s @ calls"
    by (auto simp: holds_iff)
  have fits: "off + length msg \<le> RECV_BUFFER_LENGTH" using burst(1) by (simp add: burst_read_def)
  note str = cstr_rx_message_cases [OF fits]
  have fault: "recvCallback os (Ptr a) s = Fault OutOfBounds" if "unterminated off msg"
    using fr str that by (simp add: recvCallback_unfold [OF s(1)] run rx_frame_def conn_exec)
  have ok: "holds (\<lambda>s'. recv_effect os (\<lambda>w. w = kernel s1) a c s s' (rx_message off msg)
         (int (off + length msg)) (rx_text off msg) \<and>
       trace s' = trace s1 @ [OutRecv (rx_text off msg), SysEpollCtl EPOLL_CTL_MOD (conn_fd c)
         (Some \<lparr>events = EPOLLOUT, data_fd = conn_fd c\<rparr>)]) (recvCallback os (Ptr a) s)"
    if "\<not> unterminated off msg"
    using recv_tail [where K = "\<lambda>w. w = kernel s1" and os = os, OF fr s(2) _ _ refl] str fits that
    by (simp add: recvCallback_unfold [OF s(1)] run)
  show ?thesis by (rule that [OF run burst fr fault ok])
qed

section \<open>The invariant\<close>

text \<open>A client's connection agrees with what was heard on its descriptor.\<close>

definition conn_heard :: "session \<Rightarrow> conn_obj \<Rightarrow> bool" where
  "conn_heard x c \<longleftrightarrow> over x \<and> rlen c = int (heard_total x) \<and> heard_total x \<le> RECV_BUFFER_LENGTH \<and>
     wbuffer c = replicate SEND_BUFFER_LENGTH None \<and>
     (armed c \<longrightarrow> rbuffer c = rx_message (earlier x) (burst x))"

definition hears_ok :: "'w reactor \<Rightarrow> bool" where
  "hears_ok s \<longleftrightarrow> answered [] (trace s) \<and>
     (\<forall>a c. conns s a = Some c \<longrightarrow> is_client a c \<longrightarrow> 0 \<le> conn_fd c \<longrightarrow>
        conn_heard (heard (conn_fd c) (trace s)) c)"

lemma rx_text_heard: "rx_text (earlier x) (burst x) = heard_text x"
  by (simp add: rx_text_def heard_text_def)

text \<open>A handler whose calls concern only the descriptor \<open>g\<close>, used by no other connection.\<close>

lemma hears_step:
  assumes ok: "hears_ok s" and tr: "trace s' = trace s @ calls" and ans: "answered (trace s) calls"
    and own: "\<And>f e. e \<in> set calls \<Longrightarrow> concerns f e \<Longrightarrow> f = g \<or> heard f (trace s') = heard f (trace s)"
    and conns: "\<And>b d. conns s' b = Some d \<Longrightarrow> is_client b d \<Longrightarrow> 0 \<le> conn_fd d \<Longrightarrow>
      conn_fd d \<noteq> g \<and> conns s b = Some d \<or> conn_heard (heard (conn_fd d) (trace s')) d"
  shows "hears_ok s'"
proof -
  have other: "heard f (trace s') = heard f (trace s)" if "f \<noteq> g" for f
  proof (cases "\<forall>e\<in>set calls. \<not> concerns f e")
    case True
    then show ?thesis by (simp add: tr heard_other)
  next
    case False
    then show ?thesis using own that by blast
  qed
  show ?thesis
    unfolding hears_ok_def
  proof (intro conjI allI impI)
    show "answered [] (trace s')" using ok ans by (simp add: hears_ok_def tr answered_append)
    fix b d assume d: "conns s' b = Some d" "is_client b d" "0 \<le> conn_fd d"
    from conns [OF this] show "conn_heard (heard (conn_fd d) (trace s')) d"
      using ok other [of "conn_fd d"] d by (auto simp: hears_ok_def)
  qed
qed

text \<open>No other connection has the descriptor of a registered one.\<close>

lemma owns_alone:
  assumes "fds_ok opened B s" and "owns s a c" and "conns s b = Some d" and "0 \<le> conn_fd d" and "conn_fd d = conn_fd c"
  shows "b = a"
  using assms unfolding fds_ok_def filed_def owns_def by (metis option.inject ptr.inject)

lemma recv_hears:
  assumes R: "recv_contract os" "recv_soft os" and F: "fds_ok opened B s" and ok: "hears_ok s"
    and c: "owns s a c" "is_client a c" "inEpoll c"
  shows "within {OutOfBounds} hears_ok (recvCallback os (Ptr a) s)"
proof -
  let ?g = "conn_fd c" let ?x = "heard ?g (trace s)"
  have live: "conns s a = Some c" and g: "0 \<le> ?g" using c(1) by (auto simp: owns_def)
  have x: "conn_heard ?x c" using ok live c(2) g by (simp add: hears_ok_def)
  let ?mod = "SysEpollCtl EPOLL_CTL_MOD ?g (Some \<lparr>events = EPOLLOUT, data_fd = ?g\<rparr>)"
  have rlen: "rlen c = int (heard_total ?x)" "heard_total ?x \<le> RECV_BUFFER_LENGTH" using x by (simp_all add: conn_heard_def)
  note rule = recvCallback_rule [OF live c(3) holds_within [OF recv_loop_burst [OF R live rlen]]]
  show ?thesis
  proof (rule within_mono [OF rule], elim exE conjE, goal_cases)
    case (1 s' s1 b n str m calls)
    note eff = 1(1) [unfolded 1(5,6)]
    have calls: "calls \<noteq> []" "only_recv ?g calls" "trace s1 = trace s @ calls" "trace s' = trace s1 @ [OutRecv str, ?mod]"
      and m: "received_bytes calls = m" using 1(2-4) by (auto simp: burst_read_def)
    let ?m = m
    have tr: "trace s' = trace s @ (calls @ [OutRecv str, ?mod])" using calls by simp
    have b1: "heard ?g (trace s @ calls) = \<lparr>earlier = heard_total ?x, burst = ?m, over = False\<rparr>"
      using heard_burst [OF calls(2,1)] x m by (simp add: conn_heard_def)
    have b2: "heard ?g (trace s') = \<lparr>earlier = heard_total ?x, burst = ?m, over = True\<rparr>"
      unfolding tr append_assoc [symmetric] heard_append [of ?g "trace s @ calls"] b1 by (simp add: hears_def)
    have mem: "conns s' = (conns s)(a \<mapsto> received c (rx_message (heard_total ?x) ?m) (int (heard_total ?x + length ?m)))"
      and str: "cstr (rx_message (heard_total ?x) ?m) = Ok str"
      and len: "heard_total ?x + length ?m \<le> RECV_BUFFER_LENGTH"
      using eff by (auto simp: recv_effect_def)
    obtain ini k r bs where last: "calls = ini @ [SysRecv ?g k r bs]"
      using calls(1,2) by (cases calls rule: rev_cases) (auto simp: only_recv_def)
    have "answer_ok (trace s @ calls) (OutRecv str)"
      using b1 rx_message_text [OF str] by (simp add: answer_ok_def last) (simp add: heard_text_def rx_text_def)
    then have ans: "answered (trace s) (calls @ [OutRecv str, ?mod])"
      using answered_recv [OF calls(2)] by (simp add: answered_append answer_ok_def)
    show ?case
    proof (rule hears_step [OF ok tr ans, where g = ?g])
      show "f = ?g \<or> heard f (trace s') = heard f (trace s)" if "e \<in> set (calls @ [OutRecv str, ?mod])" "concerns f e" for f e
        using that calls(2) by (auto simp: only_recv_def)
    next
      fix b d assume d: "conns s' b = Some d" "is_client b d" "0 \<le> conn_fd d"
      have "conn_heard (heard ?g (trace s')) (received c (rx_message (heard_total ?x) ?m) (int (heard_total ?x + length ?m)))"
        using x len by (simp add: b2 conn_heard_def heard_total_def received_def)
      moreover have "conn_fd d \<noteq> ?g" if "b \<noteq> a"
        using owns_alone [OF F c(1), of b d] d that by (auto simp: mem)
      ultimately show "conn_fd d \<noteq> ?g \<and> conns s b = Some d \<or> conn_heard (heard (conn_fd d) (trace s')) d"
        using d(1) by (auto simp: mem received_def split: if_splits)
    qed
  qed
qed

lemma send_hears:
  assumes wf: "inets_owned s" and F: "fds_ok opened B s" and ok: "hears_ok s"
    and c: "owns s a c" "conn_ok a c" "sendable c"
  shows "within {} hears_ok (sendCallback os (Ptr a) s)"
proof -
  let ?g = "conn_fd c" let ?x = "heard ?g (trace s)"
  have live: "conns s a = Some c" and g: "0 \<le> ?g" using c(1) by (auto simp: owns_def)
  have client: "is_client a c" using c(2,3) by (auto simp: conn_ok_def is_listener_def sendable_defs)
  then have x: "conn_heard ?x c" using ok live g by (simp add: hears_ok_def)
  obtain b i where ip: "inetAddr c = Ptr b" "inets s b = Some i"
    using wf live unfolding inets_owned_def by blast
  obtain str where str: "cstr (rbuffer c) = Ok str" using c(3) by (auto simp: sendable_defs)
  let ?calls = "[SysWrite ?g (tx_data c str), SysEpollCtl EPOLL_CTL_DEL ?g None, SysClose ?g]"
  obtain s' where run: "sendCallback os (Ptr a) s = Ok s'" and tr: "trace s' = trace s @ ?calls"
    and m: "conns s' = (conns s)(a := None)"
    using sendCallback_effect [OF live _ ip _ _ str, of os] c(2,3)
    unfolding conn_ok_def sendable_defs by blast
  have "rbuffer c = rx_message (earlier ?x) (burst ?x)" using x c(3) by (simp add: conn_heard_def sendable_def)
  then have "str = heard_text ?x" using rx_message_text str rx_text_heard by metis
  then have "tx_data c str = echo ?x" using x by (simp add: tx_data_def echo_def conn_heard_def)
  then have ans: "answered (trace s) ?calls" by (simp add: answer_ok_def)
  show ?thesis unfolding run within_simps
  proof (rule hears_step [OF ok tr ans, where g = ?g])
    fix e d assume d: "conns s' e = Some d" "is_client e d" "0 \<le> conn_fd d"
    then have "e \<noteq> a" "conns s e = Some d" by (auto simp: m split: if_splits)
    then show "conn_fd d \<noteq> ?g \<and> conns s e = Some d \<or> conn_heard (heard (conn_fd d) (trace s')) d"
      using owns_alone [OF F c(1)] d(3) by blast
  qed auto
qed

lemma accepted_fresh:
  assumes F: "fd_contract os opened" and fds: "fds_ok opened B s" and d: "conns s b = Some d" "0 \<le> conn_fd d"
  shows "conn_fd d \<noteq> fst (fst (os_accept os l (kernel s)))"
proof
  let ?r = "fst (fst (os_accept os l (kernel s)))"
  assume r: "conn_fd d = ?r"
  have "opens opened (kernel s) ?r (snd (os_accept os l (kernel s)))" using F by (simp add: fd_contract_def)
  then have "?r \<notin> opened (kernel s)" using r d(2) by (auto simp: opens_def)
  moreover have "role s ?r \<noteq> Absent" using role_present [OF _ d] fds r by (simp add: fds_ok_def)
  ultimately show False using fds d(2) r by (auto simp: fds_ok_def)
qed

lemma accept_hears:
  assumes F: "fd_contract os opened" and wf: "conn_wf s" and fds: "fds_ok opened B s" and ok: "hears_ok s"
    and c: "owns s a c" "is_listener a c"
  shows "within {} hears_ok (acceptCallback os (Ptr a) s)"
proof -
  let ?l = "conn_fd c" and ?n = "next_conn s"
  have live: "conns s a = Some c" using c(1) by (simp add: owns_def)
  let ?calls = "\<lambda>r fl. [SysAccept ?l r, OutClient r, SysSetFl r fl,
      SysEpollCtl EPOLL_CTL_ADD r (Some \<lparr>events = EPOLLET OR EPOLLIN, data_fd = r\<rparr>)]"
  obtain r fl s1 s' where run: "acceptCallback os (Ptr a) s = Ok s'"
    and r: "r = fst (fst (os_accept os ?l (kernel s)))"
    and k: "kernel (s1 :: 'a reactor) = snd (os_accept os ?l (kernel s))"
    and tr: "trace s' = trace s @ ?calls r fl"
    and m: "conns s' = (conns s)(?n \<mapsto> client_conn r (Ptr (next_inet s)) ?n)"
    using acceptCallback_effect [OF live, of os] by blast
  note new = accepted_fresh [OF F fds, where l = ?l, folded r]
  have lr: "?l \<noteq> r" using new [OF live] c(1) by (simp add: owns_def)
  have ans: "answered (trace s) (?calls r fl)" by (simp add: answer_ok_def)
  show ?thesis unfolding run within_simps
  proof (rule hears_step [OF ok tr ans, where g = r])
    fix f e assume "e \<in> set (?calls r fl)" "concerns f e"
    then have "f = r \<or> f = ?l" by auto
    then show "f = r \<or> heard f (trace s') = heard f (trace s)"
      using lr by (auto simp: tr heard_append hears_def)
  next
    fix b d assume d: "conns s' b = Some d" "is_client b d" "0 \<le> conn_fd d"
    have "conn_heard (heard r (trace s')) (client_conn r (Ptr (next_inet s)) ?n)"
      by (simp add: tr heard_append hears_def new_session_def conn_heard_def heard_total_def armed_def)
    then show "conn_fd d \<noteq> r \<and> conns s b = Some d \<or> conn_heard (heard (conn_fd d) (trace s')) d"
      using d new [of b d] by (auto simp: m split: if_splits)
  qed
qed

section \<open>The event loop keeps it\<close>

lemma wait_hears:
  assumes ok: "hears_ok s" and run: "wait os t s = Ok (rs, s')"
  shows "hears_ok s'"
proof -
  obtain n evs s1 where w: "sys_epoll_wait os (epfd s) MAX_EPOLL_CONN t s = ((n, evs), s1)"
    by (metis surj_pair)
  have s1: "conns s1 = conns s" "trace s1 = trace s @ [SysEpollWait n]"
    using w by (auto simp: sys_epoll_wait_def log_def split: prod.splits)
  have "wait_loop (take (nat n) evs) [] s1 = Ok (rs, s')"
    using run w by (auto simp: wait_def split: if_splits)
  then have rev: "revent_only s1 s'" by (rule wait_loop_revent)
  then have tr: "trace s' = trace s @ [SysEpollWait n]" using s1 by (simp add: revent_only_def)
  show ?thesis unfolding hears_ok_def
  proof (intro conjI allI impI)
    show "answered [] (trace s')" using ok by (simp add: tr answered_append answer_ok_def hears_ok_def)
    fix a c assume c: "conns s' a = Some c" "is_client a c" "0 \<le> conn_fd c"
    have "rel_option (\<lambda>c c'. \<exists>e. c' = c\<lparr>revent := e\<rparr>) (conns s a) (conns s' a)"
      using rev s1 by (simp add: revent_only_def)
    then obtain d e where d: "conns s a = Some d" "c = d\<lparr>revent := e\<rparr>" using c(1) by (cases "conns s a") auto
    then have "conn_heard (heard (conn_fd d) (trace s)) d"
      using ok c(2,3) by (auto simp: hears_ok_def is_client_def)
    then show "conn_heard (heard (conn_fd c) (trace s')) c"
      by (simp add: d(2) tr heard_append hears_def conn_heard_def armed_def)
  qed
qed

definition echoing :: "'w os \<Rightarrow> 'w watch \<Rightarrow> ('w \<Rightarrow> int set) \<Rightarrow> int set \<Rightarrow> 'w reactor \<Rightarrow> bool" where
  "echoing os watch opened B s \<longleftrightarrow>
     ledger os watch opened B s \<and> recv_contract os \<and> recv_soft os \<and> hears_ok s"

lemma exe_recv_hears:
  assumes E: "echoing os watch opened B s" and p: "pending watch s p"
  shows "within {OutOfBounds} hears_ok (exeRecvCallback (run_callback os) p s)"
proof -
  have L: "ledger os watch opened B s" and R: "recv_contract os" "recv_soft os" and ok: "hears_ok s"
    using E by (auto simp: echoing_def)
  then have F: "fd_contract os opened" and fds: "fds_ok opened B s" and wf: "conn_wf s"
    by (auto simp: ledger_def served_def reactor_inv_def)
  from L p show ?thesis
  proof (cases rule: exe_recv_handler)
    case (client a c)
    then show ?thesis using recv_hears [OF R fds ok client(2)] by (simp add: conn_ok_def)
  next
    case (listener a c)
    then show ?thesis using accept_hears [OF F wf fds ok listener(2)] by (auto elim: within_weaken)
  qed
qed

lemma exe_send_hears:
  assumes E: "echoing os watch opened B s" and p: "pending watch s p"
    and e: "getREvent p s = Ok e" "has_flag (events e) EPOLLOUT"
  shows "within {OutOfBounds} hears_ok (exeSendCallback (run_callback os) p s)"
proof -
  have L: "ledger os watch opened B s" using E by (simp add: echoing_def)
  from L p e show ?thesis
  proof (cases rule: exe_send_handler)
    case (1 a c)
    then show ?thesis using send_hears [of s opened B a c os] E
      by (auto simp: echoing_def ledger_def served_def reactor_inv_def elim: within_weaken)
  qed
qed

interpretation echo: callbacks os "run_callback os" "echoing os watch opened B" "pending watch" "{OutOfBounds}"
  for os watch opened B
proof (rule ledger.strengthened [where Q = "\<lambda>s. recv_contract os \<and> recv_soft os \<and> hears_ok s"], goal_cases)
  case (2 s t rs s')
  then show ?case using wait_hears by (auto simp: echoing_def)
next
  case (3 s p)
  then show ?case using exe_recv_hears [OF 3] by (simp add: echoing_def)
next
  case (4 s p e)
  then show ?case using exe_send_hears [OF 4] by (simp add: echoing_def)
qed (simp add: echoing_def)

section \<open>Starting up\<close>

text \<open>When the loop is entered, nothing has been written or printed, and the only connection is the
  listening one.\<close>

lemma boot_hears:
  assumes run: "boot os lm (fresh_process w) = Ok s"
  shows "hears_ok s"
  using run
proof (cases rule: boot_Ok)
  case (1 r f fl s1 s2)
  then show ?thesis by (simp add: hears_ok_def answer_ok_def is_client_def)
qed

lemma test_main_echoing:
  assumes "epoll_contract os watch" and "fd_contract os opened" and "recv_contract os" and "recv_soft os"
    and "watch w = Map.empty" and "test_main os lm n (fresh_process w) = Ok s"
  shows "echoing os watch opened (opened w) s"
proof (rule test_main_inv [OF assms(6) _ echo.start_within])
  fix s0 assume b: "boot os lm (fresh_process w) = Ok s0"
  then show "echoing os watch opened (opened w) s0"
    using test_main_ledger [OF assms(1,2,5), of lm 0 s0] boot_hears [OF b] assms(3,4)
    by (simp add: echoing_def test_main_0)
qed

section \<open>Properties\<close>

text \<open>
  C13: \<open>recvCallback\<close>, completely. On a connection without hard errors, whatever its fill level and
  whatever arrives, it reads until the stream ends, nothing more is there, or the array is full: the
  last \<open>recv\<close> before the connection is registered anew returned nothing. If what it read fills the
  array and has no NUL, printing it overruns the array; otherwise it prints the text, stores
  the message behind the old fill level on zeros, and asks for \<open>EPOLLOUT\<close>.
\<close>

theorem receive_specified:
  assumes "recv_contract os" and "recv_soft os"
    and "conns s a = Some c" and "inEpoll c" and "rlen c = int off" and "off \<le> RECV_BUFFER_LENGTH"
  shows "\<exists>msg calls w. burst_read os (conn_fd c) RECV_BUFFER_LENGTH off msg calls w \<and>
    (if unterminated off msg then recvCallback os (Ptr a) s = Fault OutOfBounds
     else \<exists>s' ev. recvCallback os (Ptr a) s = Ok s' \<and> ev = \<lparr>events = EPOLLOUT, data_fd = conn_fd c\<rparr> \<and>
       trace s' = trace s @ calls @ [OutRecv (rx_text off msg), SysEpollCtl EPOLL_CTL_MOD (conn_fd c) (Some ev)] \<and>
       kernel s' = snd (os_epoll_ctl os (epfd s) EPOLL_CTL_MOD (conn_fd c) (Some ev) w) \<and>
       conns s' = (conns s)(a \<mapsto> c\<lparr>rbuffer := rx_message off msg, rlen := int (off + length msg), event := Some ev\<rparr>))"
proof -
  let ?ev = "\<lparr>events = EPOLLOUT, data_fd = conn_fd c\<rparr>"
  from assms show ?thesis
  proof (cases rule: recv_burst_result)
    case (1 s1 msg calls)
    note burst = 1(2,3) and fault = 1(5) and ok = 1(6)
    show ?thesis
    proof (cases "unterminated off msg")
      case True
      then show ?thesis using burst(1) fault by auto
    next
      case False
      then obtain s' where s': "recvCallback os (Ptr a) s = Ok s'"
        "recv_effect os (\<lambda>w. w = kernel s1) a c s s' (rx_message off msg) (int (off + length msg)) (rx_text off msg)"
        "trace s' = trace s1 @ [OutRecv (rx_text off msg), SysEpollCtl EPOLL_CTL_MOD (conn_fd c) (Some ?ev)]"
        using ok by (auto simp: holds_iff)
      from s'(2) obtain s2 where "kernel (s2 :: 'a reactor) = kernel s1"
        "kernel s' = kernel (sys_epoll_ctl os (epfd s) EPOLL_CTL_MOD (conn_fd c) (Some ?ev) s2)"
        by (auto simp: recv_effect_def)
      then have "kernel s' = snd (os_epoll_ctl os (epfd s) EPOLL_CTL_MOD (conn_fd c) (Some ?ev) (kernel s1))"
        by (simp add: sys_epoll_ctl_def split_beta)
      moreover have "conns s' = (conns s)(a \<mapsto> received c (rx_message off msg) (int (off + length msg)))"
        using s'(2) by (simp add: recv_effect_def)
      ultimately show ?thesis using s'(1,3) burst False by (auto simp: received_def)
    qed
  qed
qed

theorem receive_specified_witness:
  "\<exists>msg s'. recvCallback (sim_os False) (Ptr 0) (second_message [Chunk [33]]) = Ok s' \<and>
     OutRecv (rx_text 2 msg) \<in> set (trace s')"
  using receive_specified [OF sim_recv_contract sim_recv_soft, of "second_message [Chunk [33]]" 0 greeted 2]
  by (auto simp: RECV_BUFFER_LENGTH_def unterminated_def)

text \<open>
  C14: \<open>recvCallback\<close> on the error branches too: nothing is assumed of how \<open>recv\<close> fails. Its replies,
  played on a cleared buffer from the old fill level, decide everything: if they lead out of the
  array, or leave it without a NUL, the handler overruns it; otherwise it prints the text they
  leave, keeps the array and the level they leave, and asks for \<open>EPOLLOUT\<close>. Every run that ends is one of these.
\<close>

theorem receive_replies_specified:
  assumes "recv_contract os" and "conns s a = Some c" and "inEpoll c" and "rlen c = int off" and "off \<le> RECV_BUFFER_LENGTH"
  shows "(\<forall>rs. replies os (conn_fd c) RECV_BUFFER_LENGTH off rs (kernel s) \<longrightarrow>
      andThen (played off rx_zeros rs) (\<lambda>(k, b). cstr b) = Fault OutOfBounds \<and>
        recvCallback os (Ptr a) s = Fault OutOfBounds \<or>
      (\<exists>k b str s' ev calls. played off rx_zeros rs = Ok (k, b) \<and> cstr b = Ok str \<and>
         ev = \<lparr>events = EPOLLOUT, data_fd = conn_fd c\<rparr> \<and> recvCallback os (Ptr a) s = Ok s' \<and> only_recv (conn_fd c) calls \<and>
         trace s' = trace s @ calls @ [OutRecv str, SysEpollCtl EPOLL_CTL_MOD (conn_fd c) (Some ev)] \<and>
         conns s' = (conns s)(a \<mapsto> c\<lparr>rbuffer := b, rlen := int k, event := Some ev\<rparr>))) \<and>
    (recvCallback os (Ptr a) s \<noteq> None \<longrightarrow> (\<exists>rs. replies os (conn_fd c) RECV_BUFFER_LENGTH off rs (kernel s)))"
proof (intro conjI allI impI)
  show "\<exists>rs. replies os (conn_fd c) RECV_BUFFER_LENGTH off rs (kernel s)" if "recvCallback os (Ptr a) s \<noteq> None"
    using recvCallback_has_replies [OF assms(1,2,4,5) that] .
  fix rs assume rs: "replies os (conn_fd c) RECV_BUFFER_LENGTH off rs (kernel s)"
  have "None \<notin> set rx_zeros" by simp
  then show "andThen (played off rx_zeros rs) (\<lambda>(k, b). cstr b) = Fault OutOfBounds \<and>
        recvCallback os (Ptr a) s = Fault OutOfBounds \<or>
      (\<exists>k b str s' ev calls. played off rx_zeros rs = Ok (k, b) \<and> cstr b = Ok str \<and>
         ev = \<lparr>events = EPOLLOUT, data_fd = conn_fd c\<rparr> \<and> recvCallback os (Ptr a) s = Ok s' \<and> only_recv (conn_fd c) calls \<and>
         trace s' = trace s @ calls @ [OutRecv str, SysEpollCtl EPOLL_CTL_MOD (conn_fd c) (Some ev)] \<and>
         conns s' = (conns s)(a \<mapsto> c\<lparr>rbuffer := b, rlen := int k, event := Some ev\<rparr>))"
  proof (cases rule: played_text_cases [where off = off and rs = rs])
    case 1
    then show ?thesis using recvCallback_replies_fault [OF assms(2,4,5) rs] by simp
  next
    case (2 k b str)
    then have "holds (\<lambda>s'. recv_effect os (\<lambda>_. True) a c s s' b (int k) str) (recvCallback os (Ptr a) s)"
      by (intro recvCallback_replies [OF assms(2-5) rs]) auto
    then obtain s' where "recvCallback os (Ptr a) s = Ok s'" "recv_effect os (\<lambda>_. True) a c s s' b (int k) str"
      by (auto simp: holds_iff)
    then show ?thesis using 2 by (auto simp: recv_effect_def received_def only_recv_def)
  qed
qed

theorem receive_replies_specified_witness:
  "\<exists>s' c'. recvCallback (sim_os True) (Ptr 0) (second_message [Failure 104, Chunk [33]]) = Ok s' \<and>
     conns s' 0 = Some c' \<and> rlen c' = 2"
proof -
  let ?s = "second_message [Failure 104, Chunk [33]]"
  have "replies (sim_os True) (conn_fd greeted) RECV_BUFFER_LENGTH 2 [Failed, Got [33]] (kernel ?s)"
    by (simp add: RECV_BUFFER_LENGTH_def would_block_def EAGAIN_def EWOULDBLOCK_def numeral_2_eq_2)
  moreover have "\<exists>b. played 2 rx_zeros [Failed, Got [33]] = Ok (2, b) \<and> cstr b = Ok []"
    by (simp add: RECV_BUFFER_LENGTH_def numeral_2_eq_2)
  ultimately show ?thesis
    using receive_replies_specified [OF sim_recv_contract, of ?s 0 greeted 2 True]
    by (fastforce simp: RECV_BUFFER_LENGTH_def)
qed

text \<open>
  C2: The server says exactly what it has been told. In every state it reaches, with any number of
  clients, in any order of events and however the network cuts up their data, each \<open>write\<close> to a
  descriptor carries the specified echo of what had arrived on that descriptor since it was accepted,
  and nothing of any other client; each line printed is the text of the burst just read. A first
  burst without NUL is echoed and printed as it is. (On connections without hard errors; C14 and
  C35 are about those.)
\<close>

theorem server_implements_echo:
  assumes "epoll_contract os watch" and "fd_contract os opened" and "recv_contract os" and "recv_soft os"
    and "watch w = Map.empty" and "test_main os loop_mem n (fresh_process w) = Ok s"
  shows "(\<forall>pre f data post. trace s = pre @ SysWrite f data # post \<longrightarrow> data = echo (heard f pre) \<and>
      (earlier (heard f pre) = 0 \<and> 0 \<notin> set (burst (heard f pre)) \<longrightarrow> data = map Some (burst (heard f pre)))) \<and>
    (\<forall>pre txt post. trace s = pre @ OutRecv txt # post \<longrightarrow>
      (\<exists>pre' f k r bs. pre = pre' @ [SysRecv f k r bs] \<and> txt = heard_text (heard f pre) \<and>
        (earlier (heard f pre) = 0 \<and> 0 \<notin> set (burst (heard f pre)) \<longrightarrow> txt = burst (heard f pre))))"
proof -
  have "answered [] (trace s)" using test_main_echoing [OF assms] by (simp add: echoing_def hears_ok_def)
  then have ok: "answer_ok pre e" if "trace s = pre @ e # post" for pre e post using that answered_iff by blast
  have 1: "data = echo (heard f pre) \<and>
      (earlier (heard f pre) = 0 \<and> 0 \<notin> set (burst (heard f pre)) \<longrightarrow> data = map Some (burst (heard f pre)))"
    if "trace s = pre @ SysWrite f data # post" for pre f data post
    using ok [OF that] echo_whole [of "heard f pre"] by (simp add: answer_ok_def)
  have 2: "\<exists>pre' f k r bs. pre = pre' @ [SysRecv f k r bs] \<and> str = heard_text (heard f pre) \<and>
      (earlier (heard f pre) = 0 \<and> 0 \<notin> set (burst (heard f pre)) \<longrightarrow> str = burst (heard f pre))"
    if "trace s = pre @ OutRecv str # post" for pre str post
    using ok [OF that] echo_whole
    by (cases pre rule: rev_cases) (auto simp: answer_ok_def split: syscall.splits)
  show ?thesis using 1 2 by blast
qed

text \<open>A client that connects and sends two bytes gets these two bytes.\<close>

theorem server_implements_echo_witness:
  "\<exists>s pre. test_main (sim_os False) Null 3 (fresh_process sim_visit) = Ok s \<and>
     trace s = pre @ [SysWrite 4 [Some 72, Some 105], SysEpollCtl EPOLL_CTL_DEL 4 None, SysClose 4] \<and>
     echo (heard 4 pre) = [Some 72, Some 105]"
proof -
  obtain s pre where s: "test_main (sim_os False) Null 3 (fresh_process sim_visit) = Ok s"
    "trace s = pre @ [SysWrite 4 [Some 72, Some 105], SysEpollCtl EPOLL_CTL_DEL 4 None, SysClose 4]"
    using simulated_visit by blast
  have "sim_watch sim_visit = Map.empty" by (simp add: sim_visit_def sim0_def)
  from server_implements_echo [OF sim_contract sim_fds sim_recv_contract sim_recv_soft this s(1)]
  have "echo (heard 4 pre) = [Some 72, Some 105]" by (auto simp: s(2))
  with s show ?thesis by blast
qed

end
