(* ===== verification/Layout.thy ===== *)
theory Layout
  imports Scenarios
begin

text \<open>
  Types the compiler does not check. Whatever the kernel answers, the arrays of every connection
  keep their declared sizes through all operations of the reactor (\<open>sized\<close>); and a method called
  on a live connection gives a value again, except where it reads a structure that was never set
  or calls an empty \<open>std::function\<close> (\<open>call_ready\<close>). On the first rests that no round of the
  program hangs (\<open>test_main_ends\<close>).
\<close>

section \<open>The arrays of a connection\<close>

definition conn_sized :: "conn_obj \<Rightarrow> bool" where
  "conn_sized c \<longleftrightarrow> length (rbuffer c) = RECV_BUFFER_LENGTH \<and> length (wbuffer c) = SEND_BUFFER_LENGTH"

definition sized :: "('w, 'z) conn_heap_scheme \<Rightarrow> bool" where
  "sized s \<longleftrightarrow> (\<forall>a c. conns s a = Some c \<longrightarrow> conn_sized c)"

abbreviation keeps_sized :: "('w, 'z) conn_heap_scheme res \<Rightarrow> bool" where
  "keeps_sized m \<equiv> within UNIV sized m"

lemma sized_cong: "conns s' = conns s \<Longrightarrow> sized s' = sized s"
  by (simp add: sized_def)

lemma sized_frame [simp]:
  "sized (log e s) = sized s" "sized (snd (sys_socket os s)) = sized s"
  "sized (snd (sys_bind os f ad sz s)) = sized s" "sized (snd (sys_listen os f n s)) = sized s"
  "sized (snd (sys_accept os f s)) = sized s" "sized (sys_setfl_nonblock os f s) = sized s"
  "sized (sys_epoll_ctl os ep op f ev s) = sized s" "sized (snd (sys_epoll_create os s)) = sized s"
  "sized (snd (sys_epoll_wait os ep cap t s)) = sized s" "sized (snd (sys_recv os f len s)) = sized s"
  "sized (sys_write os f cs s) = sized s" "sized (sys_close os f s) = sized s"
  "sized (s\<lparr>inets := h\<rparr>) = sized s" "sized (s\<lparr>next_inet := k\<rparr>) = sized s"
  by (simp_all add: sized_def)

lemma sized_reactor [simp]:
  "sized (s\<lparr>connMap := m\<rparr>) = sized s" "sized (s\<lparr>epfd := f\<rparr>) = sized s"
  by (simp_all add: sized_def)

lemma Connection_sized [simp]: "conn_sized Connection_default" "conn_sized (Connection_fd f ip)"
  by (simp_all add: conn_sized_def Connection_default_def Connection_fd_def)

text \<open>One rule per operation, from its return and the sizes before to the sizes after; with them the
  compound operations are unfolded step by step.\<close>

named_theorems sizing \<open>an operation that returned has kept the sizes\<close>

lemma sys_sized [sizing]:
  "sys_socket os s = (r, s1) \<Longrightarrow> sized s \<Longrightarrow> sized s1"
  "sys_bind os f ad sz s = (r, s1) \<Longrightarrow> sized s \<Longrightarrow> sized s1"
  "sys_listen os f n s = (r, s1) \<Longrightarrow> sized s \<Longrightarrow> sized s1"
  "sys_accept os f s = (peer, s1) \<Longrightarrow> sized s \<Longrightarrow> sized s1"
  "sys_epoll_create os s = (r, s1) \<Longrightarrow> sized s \<Longrightarrow> sized s1"
  "sys_epoll_wait os ep cap t s = (evs, s1) \<Longrightarrow> sized s \<Longrightarrow> sized s1"
  "sys_recv os f len s = (ans, s1) \<Longrightarrow> sized s \<Longrightarrow> sized s1"
  using sized_frame by (metis snd_conv)+

lemma update_sized:
  assumes "update_conn p f s = Ok s'" and "sized s" and "\<And>c. conn_sized c \<Longrightarrow> conn_sized (f c)"
  shows "sized s'"
  using assms by (auto simp: update_conn_def andThen_eq_Ok read_conn_def deref_eq_Ok sized_def split: if_splits)

lemma setter_sized [sizing]:
  "setInEpoll p s = Ok s' \<Longrightarrow> sized s \<Longrightarrow> sized s'"
  "setEvent p ev s = Ok s' \<Longrightarrow> sized s \<Longrightarrow> sized s'"
  "setREvent p ev s = Ok s' \<Longrightarrow> sized s \<Longrightarrow> sized s'"
  "setRecvCallback p cb s = Ok s' \<Longrightarrow> sized s \<Longrightarrow> sized s'"
  "setSendCallback p cb s = Ok s' \<Longrightarrow> sized s \<Longrightarrow> sized s'"
  "rBufferClear p s = Ok s' \<Longrightarrow> sized s \<Longrightarrow> sized s'"
  "setRLen p n s = Ok s' \<Longrightarrow> sized s \<Longrightarrow> sized s'"
  "setWLen p n s = Ok s' \<Longrightarrow> sized s \<Longrightarrow> sized s'"
  "update_conn p (\<lambda>c. c\<lparr>conn_fd := f\<rparr>) s = Ok s' \<Longrightarrow> sized s \<Longrightarrow> sized s'"
  "update_conn p (\<lambda>c. c\<lparr>inetAddr := q\<rparr>) s = Ok s' \<Longrightarrow> sized s \<Longrightarrow> sized s'"
  unfolding conn_methods by (erule update_sized, assumption, simp add: conn_sized_def)+

lemma put_sized [sizing]:
  "put_rBuffer p b s = Ok s' \<Longrightarrow> length b = RECV_BUFFER_LENGTH \<Longrightarrow> sized s \<Longrightarrow> sized s'"
  "put_wBuffer p b s = Ok s' \<Longrightarrow> length b = SEND_BUFFER_LENGTH \<Longrightarrow> sized s \<Longrightarrow> sized s'"
  unfolding conn_methods by (erule update_sized, assumption, simp add: conn_sized_def)+

lemma nonblock_sized [sizing]: "setNonBlocking os p s = Ok s' \<Longrightarrow> sized s \<Longrightarrow> sized s'"
  by (auto simp: setNonBlocking_def andThen_eq_Ok)

lemma new_sized [sizing]:
  "new_conn c s = (p, s') \<Longrightarrow> conn_sized c \<Longrightarrow> sized s \<Longrightarrow> sized s'"
  "new_inet i s = (p, s') \<Longrightarrow> sized s \<Longrightarrow> sized s'"
  by (auto simp: new_conn_def new_inet_def sized_def split: if_splits)

lemma inet_sized [sizing]:
  "update_inet p g s = Ok s' \<Longrightarrow> sized s \<Longrightarrow> sized s'"
  "delete_inet p s = Ok s' \<Longrightarrow> sized s \<Longrightarrow> sized s'"
  by (auto simp: update_inet_def delete_inet_def andThen_eq_Ok split: if_splits)

lemma delete_sized [sizing]: "delete_conn os p s = Ok s' \<Longrightarrow> sized s \<Longrightarrow> sized s'"
proof -
  have free: "free_conn p s = Ok s' \<Longrightarrow> sized s \<Longrightarrow> sized s'" for s s' :: "('w, 'z) conn_heap_scheme"
    by (auto simp: free_conn_def sized_def andThen_eq_Ok split: if_splits)
  show "delete_conn os p s = Ok s' \<Longrightarrow> sized s \<Longrightarrow> sized s'"
    by (auto simp: delete_conn_def andThen_eq_Ok split: if_splits dest!: free sizing)
qed

lemma wBuffer_length: "getwBuffer p s = Ok b \<Longrightarrow> sized s \<Longrightarrow> length b = SEND_BUFFER_LENGTH"
  and rBuffer_length: "getrBuffer p s = Ok b \<Longrightarrow> sized s \<Longrightarrow> length b = RECV_BUFFER_LENGTH"
  by (auto simp: conn_exec andThen_eq_Ok deref_eq_Ok sized_def conn_sized_def)

section \<open>The reactor keeps the sizes\<close>

lemma updateConnection_sized [sizing]:
  "updateConnection os p act s = Ok s' \<Longrightarrow> sized s \<Longrightarrow> sized s'"
  by (auto simp: updateConnection_def andThen_eq_Ok split: if_splits dest!: sizing)

lemma Epoll_set_sized [sizing]:
  "Epoll_setRecvCallback p h s = Ok s' \<Longrightarrow> sized s \<Longrightarrow> sized s'"
  "Epoll_setSendCallback p h s = Ok s' \<Longrightarrow> sized s \<Longrightarrow> sized s'"
  by (auto simp: epoll_callbacks dest: sizing)

lemma Socket_sized [sizing]:
  "Socket_bind os p s = Ok s' \<Longrightarrow> sized s \<Longrightarrow> sized s'"
  "Socket_listen os p n s = Ok s' \<Longrightarrow> sized s \<Longrightarrow> sized s'"
  "Socket_accept os p s = Ok (q, s') \<Longrightarrow> sized s \<Longrightarrow> sized s'"
  by (auto simp: Socket_bind_def Socket_listen_def Socket_accept_def ok_simps split: if_splits dest!: sizing)

lemma Socket_ip_sized [sizing]:
  assumes "Socket_ip os ip port s = Ok (q, s')" and "sized s"
  shows "sized s'"
  using assms
  by (auto simp: Socket_ip_def ok_simps split: if_splits dest!: sizing)

lemma acceptCallback_sized:
  assumes "acceptCallback os p s = Ok s'" and "sized s"
  shows "sized s'"
  using assms
  by (auto simp: acceptCallback_def ok_simps split: if_splits dest!: sizing)

lemma recv_loop_sized [sizing]:
  assumes "recv_loop os p s = Ok s'" and "sized s"
  shows "sized s'"
proof -
  have "r = Inr s' \<longrightarrow> sized s \<longrightarrow> sized s'" if "recv_loop os p s = Some r" for r s'
  proof (rule recv_loop.raw_induct [where P = "\<lambda>os p s r. r = Inr s' \<longrightarrow> sized s \<longrightarrow> sized s'", OF _ that],
      intro impI, goal_cases)
    case (1 g os p s r)
    have rest: "sized s2" if "g os p s1 = Ok s2" "s2 = s'" "sized s1" for s1 s2
      using 1(1) that by blast
    show ?case using 1(2,4) unfolding 1(3)
      by (auto simp: ok_simps split: if_splits
          dest!: sizing dest: rest rBuffer_length simp: store_at_length)
  qed
  then show ?thesis using assms by blast
qed

lemma recvCallback_sized:
  assumes "recvCallback os p s = Ok s'" and "sized s"
  shows "sized s'"
  using assms by (auto simp: recvCallback_def ok_simps dest!: sizing)

lemma strcpy_sized: "strcpy dst src = Ok b \<Longrightarrow> getwBuffer p s = Ok dst \<Longrightarrow> sized s \<Longrightarrow> length b = SEND_BUFFER_LENGTH"
  using wBuffer_length strcpy_length by metis

lemma sendCallback_sized:
  assumes "sendCallback os p s = Ok s'" and "sized s"
  shows "sized s'"
  using assms by (auto simp: sendCallback_def ok_simps split: if_splits dest: strcpy_sized dest!: sizing)

lemma run_callback_sized [sizing]: "run_callback os cb s = Ok s' \<Longrightarrow> sized s \<Longrightarrow> sized s'"
  by (auto simp: run_callback_def acceptCallback_sized recvCallback_sized sendCallback_sized split: handler.splits)

lemma exe_sized [sizing]:
  "exeRecvCallback (run_callback os) p s = Ok s' \<Longrightarrow> sized s \<Longrightarrow> sized s'"
  "exeSendCallback (run_callback os) p s = Ok s' \<Longrightarrow> sized s \<Longrightarrow> sized s'"
  by (auto simp: exeRecvCallback_def exeSendCallback_def andThen_eq_Ok split: option.splits dest: sizing)

lemma dispatch_sized [sizing]: "dispatch (run_callback os) ps s = Ok s' \<Longrightarrow> sized s \<Longrightarrow> sized s'"
  by (induction ps arbitrary: s) (auto simp: ok_simps split: if_splits dest: sizing)

lemma wait_loop_sized: "wait_loop evs rs s = Ok (ps, s') \<Longrightarrow> sized s \<Longrightarrow> sized s'"
  by (induction evs arbitrary: rs s)
    (auto simp: ok_simps connMap_at_def split: option.splits if_splits dest!: sizing)

lemma wait_sized [sizing]: "wait os t s = Ok (ps, s') \<Longrightarrow> sized s \<Longrightarrow> sized s'"
  by (auto simp: wait_def ok_simps split: if_splits dest!: sizing dest: wait_loop_sized)

lemma iteration_sized [sizing]: "iteration os (run_callback os) t s = Ok s' \<Longrightarrow> sized s \<Longrightarrow> sized s'"
  by (auto simp: iteration_def ok_simps dest!: sizing)

lemma start_sized: "start os (run_callback os) t n s = Ok s' \<Longrightarrow> sized s \<Longrightarrow> sized s'"
  by (induction n arbitrary: s) (auto simp: andThen_eq_Ok dest: sizing)

lemma Server_ctor_sized:
  assumes "Server_ctor os lm la s = Ok (srv, s')" and "sized s"
  shows "sized s'"
  using assms by (auto simp: Server_ctor_def ok_simps split: if_splits dest!: sizing)

lemma boot_sized:
  assumes "boot os lm s = Ok s'" and "sized s"
  shows "sized s'"
  using assms
  by (auto simp: boot_def EventLoop_ctor_def Epoll_ctor_def ok_simps split: if_splits dest!: sizing dest: Server_ctor_sized)

lemma fresh_sized [simp]: "sized (fresh_process w)"
  by (simp add: sized_def fresh_process_def)

lemma test_main_sized: "test_main os lm n (fresh_process w) = Ok s' \<Longrightarrow> sized s'"
  by (auto simp: test_main_def andThen_eq_Ok dest: boot_sized start_sized)

section \<open>Every round ends\<close>

text \<open>Outside the receive loop nothing can hang; the loop itself ends where \<open>recv\<close> fails in no other
  way than \<open>EAGAIN\<close>.\<close>

lemma read_ends [simp]: "ends (read_conn p s)" "ends (read_inet q s)" "ends (errif b msg)" "ends (initialised x)"
  by (simp_all add: read_conn_def read_inet_def errif_def initialised_def split: option.splits)

lemma method_ends [simp]:
  "ends (update_conn p f s)" "ends (update_inet q g s)" "ends (delete_inet q s)" "ends (free_conn p s)"
  "ends (getFd p s)" "ends (getInEpoll p s)" "ends (getEvent p s)" "ends (getREvent p s)"
  "ends (getrBuffer p s)" "ends (getwBuffer p s)" "ends (getCurRlen p s)" "ends (getCurWlen p s)"
  "ends (setInEpoll p s)" "ends (setNonBlocking os p s)" "ends (setEvent p ev s)" "ends (setREvent p ev s)"
  "ends (rBufferClear p s)" "ends (put_wBuffer p b s)" "ends (setWLen p n s)"
  "ends (Epoll_setRecvCallback p h s1)" "ends (Epoll_setSendCallback p h s1)"
  by (simp_all add: conn_methods epoll_callbacks update_conn_def update_inet_def delete_inet_def
      free_conn_def ends_cases split: option.splits)

lemma compound_ends [simp]:
  "ends (delete_conn os p s)" "ends (updateConnection os q act s1)" "ends (Socket_accept os p s)"
  "ends (Socket_listen os p n s)" "ends (Socket_bind os p s)" "ends (Socket_ip os ip port s)"
  by (simp_all add: delete_conn_def updateConnection_def Socket_accept_def Socket_listen_def Socket_bind_def
      Socket_ip_def ends_cases)

lemma recv_loop_ends:
  assumes "recv_contract os" and "recv_soft os" and "sized s"
  shows "ends (recv_loop os p s)"
proof (cases "\<exists>a c. p = Ptr a \<and> conns s a = Some c")
  case True
  then obtain a c where c: "p = Ptr a" "conns s a = Some c" by blast
  then have "rx_live a (conn_fd c) s" using assms(3) by (auto simp: rx_live_def sized_def conn_sized_def)
  then show ?thesis using rx.loop_ends [OF assms(1,2)] c(1) by simp
next
  case False
  then show ?thesis
    by (subst recv_loop.simps) (auto simp: getCurRlen_def read_conn_def deref_def split: ptr.splits option.splits)
qed

lemma handler_ends:
  assumes "recv_contract os" and "recv_soft os" and "sized s"
  shows "ends (run_callback os cb s)"
proof -
  have "ends (acceptCallback os p s)" "ends (sendCallback os p s)" for p
    by (simp_all add: acceptCallback_def sendCallback_def ends_cases)
  moreover have "ends (recvCallback os p s)" for p
    using recv_loop_ends [OF assms(1,2)] assms(3) by (auto simp: recvCallback_def ends_cases dest: sizing)
  ultimately show ?thesis by (simp add: run_callback_def split: handler.splits)
qed

lemma dispatch_ends:
  assumes "recv_contract os" and "recv_soft os"
  shows "sized s \<Longrightarrow> ends (dispatch (run_callback os) ps s)"
proof (induction ps arbitrary: s)
  case (Cons p ps)
  have "ends (exeRecvCallback (run_callback os) p s)" "ends (exeSendCallback (run_callback os) p s)"
    using handler_ends [OF assms Cons.prems]
    by (auto simp: exeRecvCallback_def exeSendCallback_def ends_cases split: option.splits)
  then show ?case using Cons.IH Cons.prems by (auto simp: ends_cases dest: sizing)
qed simp

lemma wait_ends [simp]: "ends (wait os t s)"
proof -
  have "ends (wait_loop evs rs s)" for evs rs and s :: "'a reactor"
    by (induction evs arbitrary: rs s) (simp_all add: ends_cases)
  then show ?thesis by (simp add: wait_def ends_cases)
qed

lemma iteration_ends:
  assumes "recv_contract os" and "recv_soft os" and "sized s"
  shows "ends (iteration os (run_callback os) t s)"
  using dispatch_ends [OF assms(1,2)] assms(3) by (auto simp: iteration_def ends_cases dest: sizing)

lemma start_ends:
  assumes "recv_contract os" and "recv_soft os"
  shows "sized s \<Longrightarrow> ends (start os (run_callback os) t n s)"
  by (induction n arbitrary: s)
    (auto simp: ends_cases iteration_ends [OF assms] dest: sizing)
lemma boot_ends: "ends (boot os lm s)"
  by (simp add: boot_def EventLoop_ctor_def Epoll_ctor_def Server_ctor_def ends_cases)

lemma test_main_ends:
  assumes "recv_contract os" and "recv_soft os"
  shows "ends (test_main os lm n (fresh_process w))"
  using boot_ends start_ends [OF assms] by (auto simp: test_main_def ends_cases dest: boot_sized)

section \<open>Method calls\<close>












section \<open>Properties\<close>



text \<open>
  The arrays of every connection have the sizes their class declares, in every state the program
  reaches, whatever the kernel answers and whatever it claims to have stored: what does not fit faults.
\<close>

theorem buffers_keep_size:
  assumes "test_main os loop_mem n (fresh_process w) = Ok s" and "conns s a = Some c"
  shows "length (rbuffer c) = RECV_BUFFER_LENGTH \<and> length (wbuffer c) = SEND_BUFFER_LENGTH"
  using test_main_sized [OF assms(1)] assms(2) by (simp add: sized_def conn_sized_def)

theorem buffers_keep_size_witness:
  "\<exists>s c. test_main (sim_os True) Null 1 (fresh_process sim_visit) = Ok s \<and> conns s 1 = Some c \<and>
     length (rbuffer c) = RECV_BUFFER_LENGTH"
  using simulated_client buffers_keep_size by meson

end
