(* ===== verification/Heap_Accounts.thy ===== *)
theory Heap_Accounts
  imports Descriptors
begin

text \<open>
  The objects on the heap, counted against the history: how many connections and addresses exist
  after any run, who owns them, and which of them the program can no longer reach. \<open>accounts\<close> is
  kept by every handler; the event loop's interface is interpreted on it together with \<open>ledger\<close>.
\<close>

section \<open>Counting the history\<close>

fun accepted :: "syscall \<Rightarrow> bool" where
  "accepted (SysAccept _ r) \<longleftrightarrow> r \<noteq> -1"
| "accepted _ \<longleftrightarrow> False"

fun refused :: "syscall \<Rightarrow> bool" where
  "refused (SysAccept _ r) \<longleftrightarrow> r = -1"
| "refused _ \<longleftrightarrow> False"

fun closed :: "syscall \<Rightarrow> bool" where
  "closed (SysClose _) \<longleftrightarrow> True"
| "closed _ \<longleftrightarrow> False"

definition count :: "(syscall \<Rightarrow> bool) \<Rightarrow> syscall list \<Rightarrow> nat" where
  "count p calls = length (filter p calls)"

lemma count_append [simp]: "count p (t @ u) = count p t + count p u"
  by (simp add: count_def)

lemma count_Cons [simp]: "count p (e # t) = (if p e then Suc (count p t) else count p t)" "count p [] = 0"
  by (simp_all add: count_def)

lemma count_recv:
  assumes "\<forall>e\<in>set calls. \<exists>k r bs. e = SysRecv f k r bs"
  shows "count accepted calls = 0" "count refused calls = 0" "count closed calls = 0"
  using assms by (induction calls) auto

section \<open>The invariant\<close>

definition with_fd :: "'w reactor \<Rightarrow> nat set" where
  "with_fd s = {a. \<exists>c. conns s a = Some c \<and> 0 \<le> conn_fd c}"

definition without_fd :: "'w reactor \<Rightarrow> nat set" where
  "without_fd s = {a. \<exists>c. conns s a = Some c \<and> conn_fd c = -1}"

text \<open>Connections with a descriptor are the listening one and the accepted ones that were not closed;
  those without are the failed accepts, of which the registry has the last one; every address
  belongs to a connection.\<close>

definition accounts :: "'w reactor \<Rightarrow> bool" where
  "accounts s \<longleftrightarrow> dom (conns s) = with_fd s \<union> without_fd s \<and>
     card (with_fd s) + count closed (trace s) = Suc (count accepted (trace s)) \<and>
     card (without_fd s) = count refused (trace s) \<and>
     (without_fd s \<noteq> {} \<longrightarrow> (\<exists>a. connMap s (-1) = Some (Ptr a))) \<and>
     (\<forall>b. inets s b \<noteq> None \<longrightarrow> (\<exists>a c. conns s a = Some c \<and> inetAddr c = Ptr b))"

lemma accounts_owned:
  "accounts s \<Longrightarrow> inets s b \<noteq> None \<Longrightarrow> \<exists>a c. conns s a = Some c \<and> inetAddr c = Ptr b"
  by (simp add: accounts_def)

lemma heap_finite:
  assumes "conn_wf s"
  shows "finite (dom (conns s))" "finite (with_fd s)" "finite (without_fd s)"
proof -
  have "dom (conns s) \<subseteq> {..<next_conn s}" using assms by (auto simp: conn_wf_def not_less [symmetric])
  then show fin: "finite (dom (conns s))" by (rule finite_subset) simp
  show "finite (with_fd s)" "finite (without_fd s)"
    by (rule finite_subset [OF _ fin], auto simp: with_fd_def without_fd_def)+
qed

text \<open>Replacing connections by versions with the same descriptor and address changes no set.\<close>

lemma same_accounts:
  assumes rel: "\<And>a. rel_option (\<lambda>c c'. conn_fd c' = conn_fd c \<and> inetAddr c' = inetAddr c) (conns s a) (conns s' a)"
    and "inets s' = inets s" and "\<And>a. connMap s' (-1) = Some (Ptr a) \<longleftrightarrow> connMap s (-1) = Some (Ptr a)"
    and "trace s' = trace s @ calls"
    and "count accepted calls = 0" "count refused calls = 0" "count closed calls = 0"
  shows "accounts s' = accounts s"
proof -
  have "conns s a = None \<longleftrightarrow> conns s' a = None" for a using rel [of a] by (cases "conns s a"; cases "conns s' a") auto
  then have "dom (conns s') = dom (conns s)" by (simp add: dom_def)
  moreover have one: "(\<exists>c. conns s' a = Some c \<and> P (conn_fd c) (inetAddr c)) \<longleftrightarrow> (\<exists>c. conns s a = Some c \<and> P (conn_fd c) (inetAddr c))" for a P
    using rel [of a] by (cases "conns s a"; cases "conns s' a") auto
  moreover have "with_fd s' = with_fd s" "without_fd s' = without_fd s"
    using one [of _ "\<lambda>f i. 0 \<le> f"] one [of _ "\<lambda>f i. f = -1"] by (simp_all add: with_fd_def without_fd_def)
  moreover have "(\<exists>a c. conns s' a = Some c \<and> inetAddr c = Ptr b) \<longleftrightarrow> (\<exists>a c. conns s a = Some c \<and> inetAddr c = Ptr b)" for b
    using one [of _ "\<lambda>f i. i = Ptr b"] by simp
  ultimately show ?thesis using assms(2-) by (simp add: accounts_def)
qed

section \<open>The handlers\<close>

lemma accept_accounts:
  assumes F: "fd_contract os opened" and wf: "conn_wf s" "inet_wf s" and ok: "accounts s" and c: "conns s a = Some c"
  shows "within {} accounts (acceptCallback os (Ptr a) s)"
proof -
  let ?n = "next_conn s"
  obtain r fl i s1 s' where run: "acceptCallback os (Ptr a) s = Ok s'"
    and r: "r = fst (fst (os_accept os (conn_fd c) (kernel s)))"
    and k: "kernel (s1 :: 'a reactor) = snd (os_accept os (conn_fd c) (kernel s))"
    and tr: "trace s' = trace s @ [SysAccept (conn_fd c) r, OutClient r, SysSetFl r fl,
      SysEpollCtl EPOLL_CTL_ADD r (Some \<lparr>events = EPOLLET OR EPOLLIN, data_fd = r\<rparr>)]"
    and m: "conns s' = (conns s)(?n \<mapsto> client_conn r (Ptr (next_inet s)) ?n)"
      "inets s' = (inets s)(next_inet s \<mapsto> i)" "connMap s' = (connMap s)(r \<mapsto> Ptr ?n)"
    using acceptCallback_effect [OF c, of os] by blast
  have r_range: "r = -1 \<or> 0 \<le> r" using F by (auto simp: fd_contract_def r opens_def)
  have fresh: "conns s ?n = None" using wf by (simp add: conn_wf_def)
  have sets: "with_fd s' = (if 0 \<le> r then insert ?n (with_fd s) else with_fd s)"
    "without_fd s' = (if r = -1 then insert ?n (without_fd s) else without_fd s)"
    "?n \<notin> with_fd s" "?n \<notin> without_fd s"
    using fresh by (auto simp: with_fd_def without_fd_def m)
  have "dom (conns s') = with_fd s' \<union> without_fd s'"
    using ok r_range unfolding sets by (auto simp: accounts_def m)
  moreover have "card (with_fd s') + count closed (trace s') = Suc (count accepted (trace s'))"
    "card (without_fd s') = count refused (trace s')"
    using ok r_range sets heap_finite [OF wf(1)] by (auto simp: accounts_def tr)
  moreover have "\<exists>a. connMap s' (-1) = Some (Ptr a)" if "without_fd s' \<noteq> {}"
    using ok that by (auto simp: accounts_def m sets)
  moreover have "\<exists>a c. conns s' a = Some c \<and> inetAddr c = Ptr b" if b: "inets s' b \<noteq> None" for b
  proof (cases "b = next_inet s")
    case True
    then show ?thesis by (intro exI [of _ ?n]) (simp add: m)
  next
    case False
    then have "inets s b \<noteq> None" using b by (simp add: m)
    then obtain e d where d: "conns s e = Some d" "inetAddr d = Ptr b" using accounts_owned [OF ok] by blast
    then have "e \<noteq> ?n" using fresh by auto
    then show ?thesis using d by (intro exI [of _ e]) (simp add: m)
  qed
  ultimately show ?thesis by (simp add: run accounts_def)
qed

lemma recv_accounts:
  assumes ok: "accounts s" and c: "conns s a = Some c" "inEpoll c"
  shows "within {OutOfBounds} accounts (recvCallback os (Ptr a) s)"
proof -
  have "within {OutOfBounds} (\<lambda>s'. \<exists>b n str. recv_effect os (\<lambda>_. True) a c s s' b n str) (recvCallback os (Ptr a) s)"
    by (intro recvCallback_effect c) auto
  then show ?thesis
  proof (rule within_mono, elim exE)
    fix s' b n str assume eff: "recv_effect os (\<lambda>_. True) a c s s' b n str"
    let ?ev = "\<lparr>events = EPOLLOUT, data_fd = conn_fd c\<rparr>"
    obtain calls where tr: "trace s' = trace s @ (calls @ [OutRecv str, SysEpollCtl EPOLL_CTL_MOD (conn_fd c) (Some ?ev)])"
      and calls: "\<forall>e\<in>set calls. \<exists>k r bs. e = SysRecv (conn_fd c) k r bs"
      using eff by (auto simp: recv_effect_def)
    have "accounts s' = accounts s"
    proof (rule same_accounts [OF _ _ _ tr])
      show "rel_option (\<lambda>c c'. conn_fd c' = conn_fd c \<and> inetAddr c' = inetAddr c) (conns s e) (conns s' e)" for e
        using eff c(1) by (cases "conns s e") (auto simp: recv_effect_def received_def)
    qed (use eff count_recv [OF calls] in \<open>auto simp: recv_effect_def\<close>)
    then show "accounts s'" using ok by simp
  qed
qed

lemma send_accounts:
  assumes wf: "conn_wf s" "inets_owned s" and ok: "accounts s"
    and c: "owns s a c" "conn_ok a c" "sendable c"
  shows "within {} accounts (sendCallback os (Ptr a) s)"
proof -
  let ?g = "conn_fd c"
  have live: "conns s a = Some c" "0 \<le> ?g" using c(1) by (auto simp: owns_def)
  obtain b i where ip: "inetAddr c = Ptr b" "inets s b = Some i"
    using wf(2) live unfolding inets_owned_def by blast
  obtain str where str: "cstr (rbuffer c) = Ok str" using c(3) by (auto simp: sendable_defs)
  obtain s' where run: "sendCallback os (Ptr a) s = Ok s'"
    and tr: "trace s' = trace s @ [SysWrite ?g (tx_data c str), SysEpollCtl EPOLL_CTL_DEL ?g None, SysClose ?g]"
    and m: "conns s' = (conns s)(a := None)" "inets s' = (inets s)(b := None)" "connMap s' = (connMap s)(?g \<mapsto> Null)"
    using sendCallback_effect [OF live(1) _ ip _ _ str, of os] c(2,3)
    unfolding conn_ok_def sendable_defs by blast
  have sets: "with_fd s' = with_fd s - {a}" "without_fd s' = without_fd s" "a \<in> with_fd s" "a \<notin> without_fd s"
    using live by (auto simp: with_fd_def without_fd_def m)
  have "card (with_fd s) = Suc (card (with_fd s'))"
    unfolding sets(1) using card.remove [OF heap_finite(2) [OF wf(1)] sets(3)] by simp
  moreover have "dom (conns s') = with_fd s' \<union> without_fd s'"
    using ok sets by (auto simp: accounts_def m)
  moreover have "\<exists>a c. conns s' a = Some c \<and> inetAddr c = Ptr b'" if b': "inets s' b' \<noteq> None" for b'
  proof -
    have "inets s b' \<noteq> None" "b' \<noteq> b" using b' by (auto simp: m split: if_splits)
    then obtain e d where d: "conns s e = Some d" "inetAddr d = Ptr b'" using accounts_owned [OF ok] by blast
    then have "e \<noteq> a" using \<open>b' \<noteq> b\<close> ip live(1) by auto
    then show ?thesis using d by (intro exI [of _ e]) (simp add: m)
  qed
  ultimately show ?thesis using ok live(2) sets(2) by (auto simp: run accounts_def tr m)
qed

lemma wait_accounts:
  assumes ok: "accounts s" and run: "wait os t s = Ok (rs, s')"
  shows "accounts s'"
proof -
  obtain n evs s1 where w: "sys_epoll_wait os (epfd s) MAX_EPOLL_CONN t s = ((n, evs), s1)"
    by (metis surj_pair)
  have s1: "conns s1 = conns s" "connMap s1 = connMap s" "inets s1 = inets s" "trace s1 = trace s @ [SysEpollWait n]"
    using w by (auto simp: sys_epoll_wait_def log_def split: prod.splits)
  have "wait_loop (take (nat n) evs) [] s1 = Ok (rs, s')"
    using run w by (auto simp: wait_def split: if_splits)
  then have rev: "revent_only s1 s'" by (rule wait_loop_revent)
  have "accounts s' = accounts s"
  proof (rule same_accounts [where calls = "[SysEpollWait n]"])
    fix a
    have "rel_option (\<lambda>c c'. \<exists>e. c' = c\<lparr>revent := e\<rparr>) (conns s a) (conns s' a)"
      using rev s1 by (simp add: revent_only_def)
    then show "rel_option (\<lambda>c c'. conn_fd c' = conn_fd c \<and> inetAddr c' = inetAddr c) (conns s a) (conns s' a)"
      by (rule option.rel_mono_strong) auto
  qed (use rev s1 in \<open>auto simp: revent_only_def\<close>)
  then show ?thesis using ok by simp
qed

section \<open>The event loop keeps the accounts\<close>

definition accounted :: "'w os \<Rightarrow> 'w watch \<Rightarrow> ('w \<Rightarrow> int set) \<Rightarrow> int set \<Rightarrow> 'w reactor \<Rightarrow> bool" where
  "accounted os watch opened B s \<longleftrightarrow> ledger os watch opened B s \<and> accounts s"

lemma accounted_parts:
  assumes "accounted os watch opened B s"
  shows "ledger os watch opened B s" "accounts s" "fd_contract os opened" "conn_wf s" "inet_wf s" "inets_owned s"
  using assms by (auto simp: accounted_def ledger_def served_def reactor_inv_def)

interpretation accounting: callbacks os "run_callback os" "accounted os watch opened B" "pending watch" "{OutOfBounds}"
  for os watch opened B
proof (rule ledger.strengthened [where Q = accounts], goal_cases)
  case (2 s t rs s')
  then show ?case using wait_accounts accounted_parts(2) by blast
next
  case (3 s p)
  note inv = accounted_parts [OF 3(1)]
  from inv(1) 3(2) show ?case
  proof (cases rule: exe_recv_handler)
    case (client a c)
    then show ?thesis using recv_accounts [OF inv(2), of a c os] by (simp add: owns_def conn_ok_def)
  next
    case (listener a c)
    then show ?thesis using accept_accounts [OF inv(3-5,2), of a c]
      by (auto simp: owns_def elim: within_weaken)
  qed
next
  case (4 s p e)
  note inv = accounted_parts [OF 4(1)]
  from inv(1) 4(2-4) show ?case
  proof (cases rule: exe_send_handler)
    case (1 a c)
    then show ?thesis using send_accounts [OF inv(4,6,2) 1(2-4), of os] by (auto elim: within_weaken)
  qed
qed (simp add: accounted_def)

section \<open>Starting up\<close>

lemma boot_accounts:
  assumes F: "fd_contract os opened" and run: "boot os lm (fresh_process w) = Ok s"
  shows "accounts s"
  using run
proof (cases rule: boot_Ok)
  case (1 r f fl s1 s2)
  have sets: "with_fd s = {0}" "without_fd s = {}"
    using 1(2,4) 1(12) [OF F] by (auto simp: with_fd_def without_fd_def opens_def)
  show ?thesis by (auto simp: accounts_def sets 1(4,5,10))
qed

lemma test_main_accounted:
  assumes "epoll_contract os watch" and "fd_contract os opened" and "watch w = Map.empty"
    and "test_main os lm n (fresh_process w) = Ok s"
  shows "accounted os watch opened (opened w) s"
proof (rule test_main_inv [OF assms(4) _ accounting.start_within])
  fix s0 assume b: "boot os lm (fresh_process w) = Ok s0"
  then show "accounted os watch opened (opened w) s0"
    using test_main_ledger [OF assms(1-3), of lm 0 s0] boot_accounts [OF assms(2) b]
    by (simp add: accounted_def test_main_0)
qed

section \<open>Property\<close>

text \<open>The connections that the registry does not lead to: all failed accepts but the last.\<close>

lemma unreachable_conns:
  assumes ok: "accounts s" and map: "map_ok s" and filed: "filed s" and wf: "conn_wf s"
  shows "card {a. conns s a \<noteq> None \<and> (\<forall>f. connMap s f \<noteq> Some (Ptr a))} = count refused (trace s) - 1"
proof -
  have reached: "\<exists>f. connMap s f = Some (Ptr a)" if "a \<in> with_fd s" for a
    using that filed by (auto simp: with_fd_def filed_def)
  have "dom (conns s) = with_fd s \<union> without_fd s" using ok by (simp add: accounts_def)
  then have all: "conns s a \<noteq> None \<longleftrightarrow> a \<in> with_fd s \<or> a \<in> without_fd s" for a
    by (metis Un_iff domIff)
  have card: "card (without_fd s) = count refused (trace s)" using ok by (simp add: accounts_def)
  show ?thesis
  proof (cases "without_fd s = {}")
    case True
    then have "{a. conns s a \<noteq> None \<and> (\<forall>f. connMap s f \<noteq> Some (Ptr a))} = {}"
      unfolding all using reached by auto
    then show ?thesis using card True by (simp only: card.empty)
  next
    case False
    then obtain a0 where a0: "connMap s (-1) = Some (Ptr a0)" using ok by (auto simp: accounts_def)
    then have in0: "a0 \<in> without_fd s" using map_live [OF map a0] by (simp add: without_fd_def)
    have lost: "connMap s f \<noteq> Some (Ptr a)" if "a \<in> without_fd s" "a \<noteq> a0" for f a
      using map_live [OF map, of f a] that a0 by (auto simp: without_fd_def)
    have "{a. conns s a \<noteq> None \<and> (\<forall>f. connMap s f \<noteq> Some (Ptr a))} = without_fd s - {a0}"
      unfolding all using reached lost a0 by auto
    then show ?thesis using card in0 heap_finite(3) [OF wf] by (simp only: card_Diff_singleton)
  qed
qed

text \<open>
  C9: The heap is accounted for by the history. After any run, the connection objects are the
  listening one and one per accept, less one per close; every address object belongs to exactly one
  of them; and the program has lost as many connections as it made failing calls of \<open>accept\<close>, but
  for the last, which is still filed under the key \<open>-1\<close>. Served clients leave nothing behind.
\<close>

theorem heap_is_accounted:
  assumes "epoll_contract os watch" and "fd_contract os opened" and "watch w = Map.empty"
    and "test_main os loop_mem n (fresh_process w) = Ok s"
  shows "finite (dom (conns s)) \<and>
    card (dom (conns s)) + count closed (trace s) = 1 + count accepted (trace s) + count refused (trace s) \<and>
    (\<forall>b. inets s b \<noteq> None \<longleftrightarrow> (\<exists>!a. \<exists>c. conns s a = Some c \<and> inetAddr c = Ptr b)) \<and>
    card {a. conns s a \<noteq> None \<and> (\<forall>f. connMap s f \<noteq> Some (Ptr a))} = count refused (trace s) - 1"
proof -
  note inv = accounted_parts [OF test_main_accounted [OF assms]]
  have fds: "filed s" and map: "map_ok s" using inv(1) by (auto simp: ledger_def fds_ok_def served_def reactor_inv_def)
  have "with_fd s \<inter> without_fd s = {}" by (auto simp: with_fd_def without_fd_def)
  then have "card (dom (conns s)) = card (with_fd s) + card (without_fd s)"
    using inv(2) card_Un_disjoint [OF heap_finite(2,3) [OF inv(4)]] by (simp add: accounts_def)
  then have 1: "card (dom (conns s)) + count closed (trace s) = 1 + count accepted (trace s) + count refused (trace s)"
    using inv(2) by (simp add: accounts_def)
  have 2: "inets s b \<noteq> None \<longleftrightarrow> (\<exists>!a. \<exists>c. conns s a = Some c \<and> inetAddr c = Ptr b)" for b
  proof
    assume "inets s b \<noteq> None"
    then obtain a c where c: "conns s a = Some c" "inetAddr c = Ptr b" using accounts_owned [OF inv(2)] by blast
    then show "\<exists>!a. \<exists>c. conns s a = Some c \<and> inetAddr c = Ptr b"
      using inv(6) unfolding inets_owned_def by (metis option.inject)
  next
    assume "\<exists>!a. \<exists>c. conns s a = Some c \<and> inetAddr c = Ptr b"
    then obtain a c where "conns s a = Some c" "inetAddr c = Ptr b" by blast
    then show "inets s b \<noteq> None" using inv(6) unfolding inets_owned_def by (metis option.distinct(1) ptr.inject)
  qed
  show ?thesis using 1 2 heap_finite(1) [OF inv(4)] unreachable_conns [OF inv(2) map fds inv(4)] by blast
qed

theorem heap_is_accounted_witness:
  "\<exists>s. test_main (sim_os True) Null 1 (fresh_process sim_visit) = Ok s \<and>
     card (dom (conns s)) + count closed (trace s) = 1 + count accepted (trace s) + count refused (trace s)"
proof -
  obtain s where s: "test_main (sim_os True) Null 1 (fresh_process sim_visit) = Ok s"
    using simulated_client by blast
  have "sim_watch sim_visit = Map.empty" by (simp add: sim_visit_def sim0_def)
  from heap_is_accounted [OF sim_contract sim_fds this s] s show ?thesis by blast
qed

end
