(* ===== verification/Isolation.thy ===== *)
theory Isolation
  imports Scenarios
begin

text \<open>
  Clients do not disturb each other: a handler changes the connection it was called for and may add a
  new one; every other connection object, its buffers and lengths included, stays as it is. Over
  a round of the event loop, only the connections that \<open>wait\<close> reported can change.
\<close>

definition untouched :: "ptr set \<Rightarrow> 'w reactor \<Rightarrow> 'w reactor \<Rightarrow> bool" where
  "untouched ps s s' \<longleftrightarrow> (\<forall>a c. conns s a = Some c \<longrightarrow> Ptr a \<notin> ps \<longrightarrow> conns s' a = Some c)"

lemma untouched_refl [simp]: "untouched ps s s"
  by (simp add: untouched_def)

lemma untouched_trans:
  "untouched ps s s1 \<Longrightarrow> untouched qs s1 s2 \<Longrightarrow> untouched (ps \<union> qs) s s2"
  by (simp add: untouched_def)

lemma untouched_upd: "conns s' = (conns s)(a := x) \<Longrightarrow> untouched {Ptr a} s s'"
  by (simp add: untouched_def)

text \<open>The handlers, on connections they are registered for.\<close>

lemma recv_untouched:
  assumes inv: "reactor_inv watch s" and p: "pending watch s p"
  shows "within {OutOfBounds} (untouched {p} s) (exeRecvCallback (run_callback os) p s)"
  using inv p
proof (cases rule: recv_handler [where os = os])
  case (client a c)
  have "within {OutOfBounds} (\<lambda>s'. \<exists>b n str. recv_effect os (\<lambda>_. True) a c s s' b n str) (recvCallback os (Ptr a) s)"
    by (rule recvCallback_effect [OF client(2)]) (use client(4) in \<open>simp_all add: conn_ok_def\<close>)
  then show ?thesis unfolding client(6)
    by (rule within_mono) (auto simp: recv_effect_def client(1) intro: untouched_upd)
next
  case (listener a c)
  obtain s' where "acceptCallback os (Ptr a) s = Ok s'"
    "conns s' (next_conn s) \<noteq> None" "\<forall>b. b \<noteq> next_conn s \<longrightarrow> conns s' b = conns s b"
    using acceptCallback_effect [OF listener(2), of os] by auto
  moreover have "conns s (next_conn s) = None" using inv by (simp add: reactor_inv_def conn_wf_def)
  ultimately show ?thesis using listener(6) by (auto simp: untouched_def) (metis option.distinct(1))
qed

lemma send_untouched:
  assumes inv: "reactor_inv watch s" and p: "pending watch s p"
    and e: "getREvent p s = Ok e" "has_flag (events e) EPOLLOUT"
  shows "within {OutOfBounds} (untouched {p} s) (exeSendCallback (run_callback os) p s)"
  using inv p e
proof (cases rule: send_handler [where os = os])
  case (1 a c)
  obtain b i where ip: "inetAddr c = Ptr b" "inets s b = Some i"
    using inv 1(2) unfolding reactor_inv_def inets_owned_def by blast
  obtain str where str: "cstr (rbuffer c) = Ok str" using 1(6) by (auto simp: sendable_defs)
  obtain s' where "sendCallback os (Ptr a) s = Ok s'" "conns s' = (conns s)(a := None)"
    using sendCallback_effect [OF 1(2) _ ip _ _ str, of os] 1(4,6) unfolding conn_ok_def sendable_defs by blast
  then show ?thesis unfolding 1(7) by (simp add: 1(1) untouched_upd)
qed

lemma dispatch_untouched:
  assumes "served os watch s" and "distinct rs" and "\<forall>p\<in>set rs. pending watch s p"
  shows "within {OutOfBounds} (untouched (set rs) s) (dispatch (run_callback os) rs s)"
  using assms
proof (induction rs arbitrary: s)
  case (Cons p rs)
  have inv: "reactor_inv watch s" and p: "pending watch s p" using Cons.prems by (simp_all add: served_def)
  obtain e where e: "getREvent p s = Ok e"
    using server.pending_revent [OF Cons.prems(1) p] by (auto simp: holds_iff)
  have rest: "within {OutOfBounds} (untouched (set (p # rs)) s) (dispatch (run_callback os) rs s1)"
    if "(served os watch s1 \<and> (\<forall>q. q \<noteq> p \<longrightarrow> pending watch s q \<longrightarrow> pending watch s1 q)) \<and> untouched {p} s s1" for s1
  proof -
    have "within {OutOfBounds} (untouched (set rs) s1) (dispatch (run_callback os) rs s1)"
      using that Cons.prems by (intro Cons.IH) auto
    then show ?thesis using that untouched_trans [of "{p}" s s1 "set rs"] by (auto elim: within_mono)
  qed
  have "within {OutOfBounds} (untouched (set (p # rs)) s) (andThen (exeRecvCallback (run_callback os) p s) (dispatch (run_callback os) rs))"
    using rest by (intro within_andThen [OF within_conj [OF server.run_recv [OF Cons.prems(1) p] recv_untouched [OF inv p]]])
  moreover have "within {OutOfBounds} (untouched (set (p # rs)) s) (andThen (exeSendCallback (run_callback os) p s) (dispatch (run_callback os) rs))"
    if out: "has_flag (events e) EPOLLOUT"
    using rest by (intro within_andThen [OF within_conj [OF server.run_send [OF Cons.prems(1) p e out]
          send_untouched [OF inv p e out]]])
  moreover have "within {OutOfBounds} (untouched (set (p # rs)) s) (dispatch (run_callback os) rs s)"
  proof -
    have "within {OutOfBounds} (untouched (set rs) s) (dispatch (run_callback os) rs s)"
      using Cons.prems by (intro Cons.IH) auto
    then show ?thesis by (rule within_mono) (simp add: untouched_def)
  qed
  ultimately show ?case by (simp add: e)
qed simp

text \<open>\<open>wait\<close> stores events in the connections it returns, and in no others.\<close>

lemma wait_loop_untouched:
  "wait_loop evs rs s = Ok (rs', s') \<Longrightarrow> set rs \<subseteq> set rs' \<and> untouched (set rs') s s'"
proof (induction evs arbitrary: rs s)
  case (Cons ev evs)
  obtain p s1 where at: "connMap_at (data_fd ev) s = (p, s1)" by (metis surj_pair)
  with Cons.prems obtain s2 where set: "setREvent p (events ev) s1 = Ok s2"
    and rest: "wait_loop evs (rs @ [p]) s2 = Ok (rs', s')" by (auto simp: andThen_eq_Ok)
  have "conns s1 = conns s" using at by (auto simp: connMap_at_def split: option.splits)
  then have "untouched {p} s s2"
    using set by (auto simp: setREvent_def update_conn_def read_conn_def andThen_eq_Ok deref_eq_Ok untouched_def
        split: if_splits)
  moreover have "set (rs @ [p]) \<subseteq> set rs' \<and> untouched (set rs') s2 s'" by (rule Cons.IH [OF rest])
  ultimately show ?case using untouched_trans [of "{p}" s s2 "set rs'" s'] by (auto simp: insert_absorb)
qed simp

lemma wait_untouched: "wait os t s = Ok (rs, s') \<Longrightarrow> untouched (set rs) s s'"
  by (auto simp: wait_def sys_epoll_wait_def log_def untouched_def split: prod.splits if_splits
      dest!: wait_loop_untouched)

lemma iteration_untouched:
  assumes "served os watch s" and w: "wait os t s = Ok (rs, s1)"
  shows "within {OutOfBounds} (untouched (set rs) s) (iteration os (run_callback os) t s)"
proof -
  have s1: "served os watch s1" "distinct rs" "\<forall>p\<in>set rs. pending watch s1 p"
    using server.wait_pending [OF assms(1), of t] w by (auto simp: holds_iff)
  have "untouched (set rs) s s2" if "untouched (set rs) s1 s2" for s2
    using untouched_trans [OF wait_untouched [OF w] that] by simp
  then show ?thesis
    using within_mono [OF dispatch_untouched [OF s1]] by (simp add: iteration_def w)
qed

section \<open>Properties\<close>

lemma simulated_second_wait:
  "\<exists>s s1 c. test_main (sim_os True) Null 1 (fresh_process sim_visit) = Ok s \<and> conns s 0 = Some c \<and>
     wait (sim_os True) (-1) s = Ok ([Ptr 1], s1)"
  by (simp add: test_main_def boot_def EventLoop_ctor_def Epoll_ctor_def startup_defs fresh_process_def sys_defs
      log_def errif_andThen loop_obj_def sim_os_def sim0_def sim_fresh_def sim_epoll_create_def sim_ctl_def Let_def
      sim_visit_def iteration_def wait_def sim_wait_def MAX_EPOLL_CONN_def connMap_at_def reportable_def flag_defs
      has_flag_def run_callback_def acceptCallback_def Socket_accept_def Connection_fd_def update_inet_def
      sim_accept_def)

text \<open>
  C23: Clients are isolated from each other. In a round of the server, a connection that \<open>wait\<close> did not
  report comes out as it went in, with every byte of its buffers, its lengths, events and callbacks,
  whatever arrives on the connections that were reported and however many clients join or leave.
\<close>

theorem clients_are_isolated:
  assumes "epoll_contract os watch" and "watch w = Map.empty"
    and "test_main os loop_mem n (fresh_process w) = Ok s"
    and "wait os t s = Ok (rs, s1)" and "conns s a = Some c" and "Ptr a \<notin> set rs"
  shows "within {OutOfBounds} (\<lambda>s'. conns s' a = Some c) (iteration os (run_callback os) t s)"
proof -
  obtain s0 where "boot os loop_mem (fresh_process w) = Ok s0" "start os (run_callback os) (-1) n s0 = Ok s"
    using assms(3) by (auto simp: test_main_def andThen_eq_Ok)
  moreover from this have "served os watch s0" using boot_inv [OF assms(1,2)] assms(1) by (simp add: served_def)
  ultimately have "served os watch s" using within_Ok [OF server.start_within] by blast
  then show ?thesis
    by (rule within_mono [OF iteration_untouched [OF _ assms(4)]]) (use assms(5,6) in \<open>simp add: untouched_def\<close>)
qed

theorem clients_are_isolated_witness:
  "\<exists>s c. test_main (sim_os True) Null 1 (fresh_process sim_visit) = Ok s \<and> conns s 0 = Some c \<and>
     within {OutOfBounds} (\<lambda>s'. conns s' 0 = Some c) (iteration (sim_os True) (run_callback (sim_os True)) (-1) s)"
proof -
  obtain s s1 c where s: "test_main (sim_os True) Null 1 (fresh_process sim_visit) = Ok s" "conns s 0 = Some c"
    "wait (sim_os True) (-1) s = Ok ([Ptr 1], s1)" using simulated_second_wait by blast
  from clients_are_isolated [OF sim_contract _ s(1,3,2)] s show ?thesis by (auto simp: sim_visit_def sim0_def)
qed

end
