(* ===== verification/Round_Spec.thy ===== *)
theory Round_Spec
  imports Isolation
begin

text \<open>
  A round of the event loop as a function of what the kernel reports: its calls are the wait, and then
  one segment per reported event, in the order of the report, each segment being what the handler
  of that descriptor's connection does. Nobody who is reported is passed over.
\<close>

text \<open>What the handlers do for a connection with the reported bits \<open>bits\<close>.\<close>

definition serves :: "conn_obj \<Rightarrow> 32 word \<Rightarrow> syscall list \<Rightarrow> bool" where
  "serves c bits seg \<longleftrightarrow> (let f = conn_fd c in
     if has_flag bits EPOLLIN then
       (case map_option bound_fun (recvCb c) of
          Some AcceptCallback \<Rightarrow> (\<exists>r fl. seg = [SysAccept f r, OutClient r, SysSetFl r fl,
            SysEpollCtl EPOLL_CTL_ADD r (Some \<lparr>events = EPOLLET OR EPOLLIN, data_fd = r\<rparr>)])
        | Some RecvCallback \<Rightarrow> (\<exists>calls txt. only_recv f calls \<and> seg = calls @ [OutRecv txt,
            SysEpollCtl EPOLL_CTL_MOD f (Some \<lparr>events = EPOLLOUT, data_fd = f\<rparr>)])
        | _ \<Rightarrow> False)
     else if has_flag bits EPOLLOUT then
       (\<exists>data. seg = [SysWrite f data, SysEpollCtl EPOLL_CTL_DEL f None, SysClose f])
     else seg = [])"

lemma serves_revent [simp]: "serves (c\<lparr>revent := e\<rparr>) bits seg = serves c bits seg"
  by (simp add: serves_def)

definition segment :: "'w reactor \<Rightarrow> ptr \<Rightarrow> syscall list \<Rightarrow> bool" where
  "segment s p seg \<longleftrightarrow> (\<exists>a c e. p = Ptr a \<and> conns s a = Some c \<and> revent c = Some e \<and> serves c (events e) seg)"

section \<open>The handlers\<close>

lemma recv_serves:
  assumes inv: "reactor_inv watch s" and p: "pending watch s p"
    and e: "getREvent p s = Ok e" "has_flag (events e) EPOLLIN"
  shows "within {OutOfBounds} (\<lambda>s'. \<exists>seg. trace s' = trace s @ seg \<and> segment s p seg) (exeRecvCallback (run_callback os) p s)"
  using inv p
proof (cases rule: recv_handler [where os = os])
  case (client a c)
  have "revent c = Some e" using e(1) client(1,2) by (auto simp: conn_exec split: option.splits)
  moreover have "within {OutOfBounds} (\<lambda>s'. \<exists>b n str. recv_effect os (\<lambda>_. True) a c s s' b n str) (recvCallback os (Ptr a) s)"
    by (rule recvCallback_effect [OF client(2)]) (use client(4) in \<open>simp_all add: conn_ok_def\<close>)
  ultimately show ?thesis unfolding client(6)
    by (elim within_mono)
      (use e(2) client(1,2,5) in \<open>auto simp: recv_effect_def segment_def serves_def only_recv_def is_client_def\<close>)
next
  case (listener a c)
  have "revent c = Some e" using e(1) listener(1,2) by (auto simp: conn_exec split: option.splits)
  then show ?thesis unfolding listener(6)
    using acceptCallback_effect [OF listener(2), of os] e(2) listener(1,2,5)
    by (auto simp: segment_def serves_def is_listener_def)
qed

lemma send_serves:
  assumes inv: "reactor_inv watch s" and p: "pending watch s p"
    and e: "getREvent p s = Ok e" "has_flag (events e) EPOLLOUT" "\<not> has_flag (events e) EPOLLIN"
  shows "within {OutOfBounds} (\<lambda>s'. \<exists>seg. trace s' = trace s @ seg \<and> segment s p seg) (exeSendCallback (run_callback os) p s)"
  using inv p e(1,2)
proof (cases rule: send_handler [where os = os])
  case (1 a c)
  have "revent c = Some e" using e(1) 1(1,2) by (auto simp: conn_exec split: option.splits)
  obtain b i where ip: "inetAddr c = Ptr b" "inets s b = Some i"
    using inv 1(2) unfolding reactor_inv_def inets_owned_def by blast
  obtain str where str: "cstr (rbuffer c) = Ok str" using 1(6) by (auto simp: sendable_defs)
  obtain s' where "sendCallback os (Ptr a) s = Ok s'"
    "trace s' = trace s @ [SysWrite (conn_fd c) (tx_data c str), SysEpollCtl EPOLL_CTL_DEL (conn_fd c) None, SysClose (conn_fd c)]"
    using sendCallback_effect [OF 1(2) _ ip _ _ str, of os] 1(4,6) unfolding conn_ok_def sendable_defs by blast
  then show ?thesis unfolding 1(7)
    using e(2,3) 1(1,2) \<open>revent c = Some e\<close> by (auto simp: segment_def serves_def)
qed

section \<open>Dispatching\<close>

lemma segment_untouched:
  assumes "untouched {p} s s1" and "q \<noteq> p" and "pending watch s q" and "segment s1 q seg"
  shows "segment s q seg"
proof -
  obtain a c where "q = Ptr a" "conns s a = Some c" using assms(3) by (auto simp: pending_def)
  moreover from this have "conns s1 a = Some c" using assms(1,2) by (auto simp: untouched_def)
  ultimately show ?thesis using assms(4) by (auto simp: segment_def)
qed

lemma dispatch_serves:
  assumes "served os watch s" and "distinct rs" and "\<forall>p\<in>set rs. pending watch s p"
  shows "within {OutOfBounds} (\<lambda>s'. \<exists>segs. trace s' = trace s @ concat segs \<and> list_all2 (segment s) rs segs)
    (dispatch (run_callback os) rs s)"
  using assms
proof (induction rs arbitrary: s)
  case (Cons p rs)
  have inv: "reactor_inv watch s" and p: "pending watch s p" using Cons.prems by (simp_all add: served_def)
  obtain e where e: "getREvent p s = Ok e"
    using server.pending_revent [OF Cons.prems(1) p] by (auto simp: holds_iff)
  let ?goal = "\<lambda>s'. \<exists>segs. trace s' = trace s @ concat segs \<and> list_all2 (segment s) (p # rs) segs"
  let ?P = "\<lambda>s1. ((served os watch s1 \<and> (\<forall>q. q \<noteq> p \<longrightarrow> pending watch s q \<longrightarrow> pending watch s1 q)) \<and> untouched {p} s s1) \<and>
    (\<exists>seg. trace s1 = trace s @ seg \<and> segment s p seg)"
  have rest: "within {OutOfBounds} ?goal (dispatch (run_callback os) rs s1)" if s1: "?P s1" for s1
  proof -
    obtain seg where seg: "trace s1 = trace s @ seg" "segment s p seg" using s1 by blast
    have "within {OutOfBounds} (\<lambda>s'. \<exists>segs. trace s' = trace s1 @ concat segs \<and> list_all2 (segment s1) rs segs)
      (dispatch (run_callback os) rs s1)"
      using s1 Cons.prems by (intro Cons.IH) auto
    then show ?thesis
    proof (rule within_mono, elim exE conjE)
      fix s' segs assume s': "trace s' = trace s1 @ concat segs" "list_all2 (segment s1) rs segs"
      have "list_all2 (segment s) rs segs"
        using s'(2) by (rule list.rel_mono_strong)
          (use s1 Cons.prems(2,3) in \<open>auto intro: segment_untouched [of p s s1]\<close>)
      then show "?goal s'" using s' seg by (intro exI [of _ "seg # segs"]) simp
    qed
  qed
  consider (recv) "has_flag (events e) EPOLLIN" | (send) "\<not> has_flag (events e) EPOLLIN" "has_flag (events e) EPOLLOUT"
    | (none) "\<not> has_flag (events e) EPOLLIN" "\<not> has_flag (events e) EPOLLOUT" by blast
  then show ?case
  proof cases
    case recv
    note steps = within_conj [OF within_conj [OF server.run_recv [OF Cons.prems(1) p] recv_untouched [OF inv p]]
        recv_serves [OF inv p e recv]]
    show ?thesis using within_andThen [OF steps rest] recv by (simp add: e)
  next
    case send
    note steps = within_conj [OF within_conj [OF server.run_send [OF Cons.prems(1) p e send(2)]
        send_untouched [OF inv p e send(2)]] send_serves [OF inv p e send(2,1)]]
    show ?thesis using within_andThen [OF steps rest] send by (simp add: e)
  next
    case none
    obtain a c where c: "p = Ptr a" "conns s a = Some c" using p by (auto simp: pending_def)
    then have "revent c = Some e" using e by (auto simp: conn_exec split: option.splits)
    then have "segment s p []" using none c by (auto simp: segment_def serves_def)
    then have "within {OutOfBounds} ?goal (dispatch (run_callback os) rs s)"
      using Cons.prems by (intro rest) simp
    then show ?thesis using none by (simp add: e)
  qed
qed simp

section \<open>Waiting\<close>

text \<open>The connection an event is about, before and after its bits were stored.\<close>

definition reported :: "'w reactor \<Rightarrow> 'w reactor \<Rightarrow> epoll_event \<Rightarrow> ptr \<Rightarrow> bool" where
  "reported s s' ev p \<longleftrightarrow> (\<exists>a c. p = Ptr a \<and> connMap s (data_fd ev) = Some (Ptr a) \<and> conns s a = Some c \<and>
     conn_fd c = data_fd ev \<and> conns s' a = Some (c\<lparr>revent := Some \<lparr>events = events ev, data_fd = data_fd ev\<rparr>\<rparr>))"

lemma wait_loop_reports:
  assumes "reactor_inv watch s" and "distinct fds"
    and "list_all2 (\<lambda>f ev. \<exists>e. watch (kernel s) f = Some e \<and> data_fd ev = data_fd e \<and>
          events ev AND NOT (reportable (events e)) = 0) fds evs"
  shows "\<exists>ps s'. wait_loop evs rs s = Ok (rs @ ps, s') \<and> list_all2 (reported s s') evs ps \<and>
    (\<forall>a c. conns s a = Some c \<longrightarrow> conn_fd c \<notin> set fds \<longrightarrow> conns s' a = Some c) \<and> trace s' = trace s"
  using assms
proof (induction evs arbitrary: fds rs s)
  case (Cons ev evs)
  then obtain f fds' e where fds: "fds = f # fds'" and e: "watch (kernel s) f = Some e"
    "data_fd ev = data_fd e" "events ev AND NOT (reportable (events e)) = 0"
    by (auto simp: list_all2_Cons2)
  obtain a c s1 where c: "connMap_at (data_fd ev) s = (Ptr a, s)" "conns s a = Some c" "conn_fd c = f"
    "setREvent (Ptr a) (events ev) s = Ok s1"
    and s1: "s1 = s\<lparr>conns := (conns s)(a \<mapsto> c\<lparr>revent := Some \<lparr>events = events ev, data_fd = f\<rparr>\<rparr>)\<rparr>"
    and inv1: "reactor_inv watch s1"
    using setREvent_pending [OF Cons.prems(1) e] by blast
  have f: "data_fd ev = f" using Cons.prems(1) e by (auto simp: reactor_inv_def watch_ok_def)
  have at: "connMap s f = Some (Ptr a)"
    using c(1) f by (auto simp: connMap_at_def split: option.splits)
  obtain ps s' where s': "wait_loop evs ((rs @ [Ptr a])) s1 = Ok ((rs @ [Ptr a]) @ ps, s')"
    "list_all2 (reported s1 s') evs ps" "\<forall>b d. conns s1 b = Some d \<longrightarrow> conn_fd d \<notin> set fds' \<longrightarrow> conns s' b = Some d"
    "trace s' = trace s1"
    using Cons.IH [OF inv1, of fds' "rs @ [Ptr a]"] Cons.prems(2,3) fds s1 by auto
  have "reported s s' ev (Ptr a)"
    using s'(3) c(2,3) Cons.prems(2) f at fds by (auto simp: reported_def s1)
  moreover have "list_all2 (reported s s') evs ps"
    using s'(2)
  proof (rule list.rel_mono_strong)
    fix ev' q assume ev': "ev' \<in> set evs" and q: "reported s1 s' ev' q"
    then obtain b d where d: "q = Ptr b" "connMap s1 (data_fd ev') = Some (Ptr b)" "conns s1 b = Some d"
      "conn_fd d = data_fd ev'" "conns s' b = Some (d\<lparr>revent := Some \<lparr>events = events ev', data_fd = data_fd ev'\<rparr>\<rparr>)"
      by (auto simp: reported_def)
    have "list_all2 (\<lambda>f ev. \<exists>e. watch (kernel s) f = Some e \<and> data_fd ev = data_fd e) fds' evs"
      using Cons.prems(3) unfolding fds list.rel_inject by (elim conjE list.rel_mono_strong) blast
    then obtain f' e' where "f' \<in> set fds'" "watch (kernel s) f' = Some e'" "data_fd ev' = data_fd e'"
      using ev' by (fastforce simp: list_all2_conv_all_nth in_set_conv_nth)
    moreover from this Cons.prems(1) have "data_fd e' = f'" by (auto simp: reactor_inv_def watch_ok_def)
    ultimately have "conn_fd d \<noteq> f" using Cons.prems(2) fds d(4) by auto
    then have "b \<noteq> a" using d(3) c(3) by (auto simp: s1)
    then show "reported s s' ev' q" using d by (auto simp: reported_def s1)
  qed
  moreover have "conns s' b = Some d" if "conns s b = Some d" "conn_fd d \<notin> set fds" for b d
  proof -
    have "b \<noteq> a" using that c(2,3) fds by auto
    then show ?thesis using s'(3) that fds by (simp add: s1)
  qed
  ultimately show ?case using s'(1,4) c(1,4)
    by (intro exI [of _ "Ptr a # ps"] exI [of _ s']) (simp add: s1)
qed auto

lemma wait_reports:
  assumes "epoll_contract os watch" and "reactor_inv watch s"
    and "os_epoll_wait os (epfd s) MAX_EPOLL_CONN t (kernel s) = ((n, evs), w)"
  shows "\<exists>ps s1. wait os t s = Ok (ps, s1) \<and> list_all2 (reported s s1) evs ps \<and> trace s1 = trace s @ [SysEpollWait n]"
proof -
  obtain s0 where w: "sys_epoll_wait os (epfd s) MAX_EPOLL_CONN t s = ((n, evs), s0)" and k0: "kernel s0 = w"
    using assms(3) by (simp add: sys_epoll_wait_def)
  have k: "watch w = watch (kernel s)" and
    n: "n = -1 \<and> evs = [] \<or> n = int (length evs) \<and> length evs \<le> MAX_EPOLL_CONN \<and> wait_report (watch (kernel s)) evs"
    using assms(1,3) unfolding epoll_contract_def wait_ok_def by blast+
  have s0: "conns s0 = conns s" "inets s0 = inets s" "next_conn s0 = next_conn s" "next_inet s0 = next_inet s"
    "connMap s0 = connMap s" "trace s0 = trace s @ [SysEpollWait n]"
    using w by (auto simp: sys_epoll_wait_def log_def split: prod.splits)
  have inv0: "reactor_inv watch s0" using assms(2) inv_cong(1) [of watch s0 s] s0 k k0 by simp
  from n show ?thesis
  proof
    assume "n = -1 \<and> evs = []"
    then show ?thesis using w s0 by (simp add: wait_def)
  next
    assume n: "n = int (length evs) \<and> length evs \<le> MAX_EPOLL_CONN \<and> wait_report (watch (kernel s)) evs"
    then obtain fds where "distinct fds" and "list_all2 (\<lambda>fd ev. \<exists>e. watch (kernel s0) fd = Some e \<and>
      data_fd ev = data_fd e \<and> events ev AND NOT (reportable (events e)) = 0) fds evs"
      by (auto simp: wait_report_def k k0)
    from wait_loop_reports [OF inv0 this, of "[]"] obtain ps s1 where
      s1: "wait_loop evs [] s0 = Ok (ps, s1)" "list_all2 (reported s0 s1) evs ps" "trace s1 = trace s0" by auto
    moreover have "reported s0 = reported s" by (intro ext) (simp add: reported_def s0)
    moreover have "wait os t s = wait_loop evs [] s0" using w n by (auto simp: wait_def)
    ultimately show ?thesis using s0 by simp
  qed
qed

section \<open>Property\<close>

text \<open>
  C10: Every report is served, in order, and by the right handler. From any state the server reaches,
  if the kernel reports the events \<open>evs\<close>, the calls of the round are the wait followed by one segment
  per event: the descriptor's connection is the one filed under it; a readable listening socket
  accepts one client and registers it, a readable client is read from, printed and armed, a
  client that is only writable is answered, deregistered and closed; for an event with neither bit
  nothing is done. However many are reported, none waits for another round (unless the round
  overruns a buffer, the only other way it can end, by C1 and C11).
\<close>

theorem round_serves_reported:
  assumes "epoll_contract os watch" and "watch w = Map.empty"
    and "test_main os loop_mem n (fresh_process w) = Ok s"
    and "os_epoll_wait os (epfd s) MAX_EPOLL_CONN t (kernel s) = ((k, evs), w')"
    and "iteration os (run_callback os) t s = Ok s'"
  shows "\<exists>segs. trace s' = trace s @ [SysEpollWait k] @ concat segs \<and>
    list_all2 (\<lambda>ev seg. \<exists>a c. connMap s (data_fd ev) = Some (Ptr a) \<and> conns s a = Some c \<and>
      conn_fd c = data_fd ev \<and> serves c (events ev) seg) evs segs"
proof -
  have served: "served os watch s"
    by (rule test_main_inv [OF assms(3) _ server.start_within]) (use boot_inv assms(1,2) in \<open>auto simp: served_def\<close>)
  then have "reactor_inv watch s" by (simp add: served_def)
  from wait_reports [OF assms(1) this assms(4)] obtain ps s1 where
    s1: "wait os t s = Ok (ps, s1)" "list_all2 (reported s s1) evs ps" "trace s1 = trace s @ [SysEpollWait k]"
    by blast
  have "served os watch s1" "distinct ps" "\<forall>p\<in>set ps. pending watch s1 p"
    using server.wait_pending [OF served, of t] s1(1) by (auto simp: holds_iff)
  from dispatch_serves [OF this] obtain segs where
    segs: "trace s' = trace s1 @ concat segs" "list_all2 (segment s1) ps segs"
    using assms(5) by (auto simp: iteration_def s1(1))
  have "list_all2 (\<lambda>ev seg. \<exists>a c. connMap s (data_fd ev) = Some (Ptr a) \<and> conns s a = Some c \<and>
      conn_fd c = data_fd ev \<and> serves c (events ev) seg) evs segs"
    using s1(2) segs(2)
    by (rule list_all2_trans [rotated]) (auto simp: reported_def segment_def)
  then show ?thesis using segs(1) s1(3) by auto
qed

theorem round_serves_reported_witness:
  "\<exists>s s' seg. test_main (sim_os True) Null 1 (fresh_process sim_visit) = Ok s \<and>
     iteration (sim_os True) (run_callback (sim_os True)) (-1) s = Ok s' \<and>
     trace s' = trace s @ [SysEpollWait 1] @ seg \<and> (\<exists>c. conn_fd c = 4 \<and> serves c EPOLLIN seg)"
proof -
  obtain s s' w where s: "test_main (sim_os True) Null 1 (fresh_process sim_visit) = Ok s"
    "os_epoll_wait (sim_os True) (epfd s) MAX_EPOLL_CONN (-1) (kernel s) = ((1, [\<lparr>events = EPOLLIN, data_fd = 4\<rparr>]), w)"
    "iteration (sim_os True) (run_callback (sim_os True)) (-1) s = Ok s'"
    using simulated_second_round [of True] by blast
  have "sim_watch sim_visit = Map.empty" by (simp add: sim_visit_def sim0_def)
  from round_serves_reported [OF sim_contract this s] s(1,3) show ?thesis
    by (fastforce simp: list_all2_Cons1)
qed

end
