(* ===== verification/ThreadPool.thy ===== *)
theory ThreadPool
  imports Prelude Util "HOL-Library.Multiset"
begin

text \<open>
  \<open>inc/threadpool/ThreadPool.hpp\<close>, \<open>src/threadpool/ThreadPool.cpp\<close>: worker threads that share a
  queue of tasks under one mutex and one condition variable. A task is an opaque value \<open>'a\<close>.

  Each worker is at one of five places of its loop. A thread that blocks for the mutex takes it
  only when it is free; everything a thread does while it holds the mutex (the body of \<open>enqueue\<close>,
  the destructor's first block, the worker's block after \<open>cv.wait\<close> has the lock) is one step,
  since no other thread can see the shared members in between. Which thread moves, which sleeper
  \<open>notify_one\<close> wakes, and spurious wake-ups are left open: the steps are a relation. The lists
  \<open>submitted\<close>, \<open>taken\<close> and \<open>finished\<close> are history variables.
\<close>

section \<open>State\<close>

datatype 'a worker = Lock | Check | Asleep | Run 'a | Done

datatype owner = Using | Joining nat | Destroyed

text \<open>The phases of the owner's use of the pool, in their order: using it, joining the threads one by
  one in the destructor, and done.\<close>

instantiation owner :: linorder
begin

definition less_eq_owner :: "owner \<Rightarrow> owner \<Rightarrow> bool" where
  "o1 \<le> o2 \<longleftrightarrow> (case (o1, o2) of
     (Using, _) \<Rightarrow> True | (Joining k, Joining l) \<Rightarrow> k \<le> l | (_, Destroyed) \<Rightarrow> True | _ \<Rightarrow> False)"

definition less_owner :: "owner \<Rightarrow> owner \<Rightarrow> bool" where
  "o1 < (o2 :: owner) \<longleftrightarrow> o1 \<le> o2 \<and> \<not> o2 \<le> o1"

instance
  by standard (auto simp: less_eq_owner_def less_owner_def split: owner.splits)

end

record 'a pool =
  thread_num :: "32 word"
  quit :: bool
  mtx :: "nat option"
  workers :: "'a worker list"
  tasks :: "'a list"
  owner :: owner
  submitted :: "'a list"
  taken :: "'a list"
  finished :: "'a list"

text \<open>
  The constructor's thread count. \<open>_thread_num <= 0\<close> compares as \<open>int\<close>; in the second comparison
  the other side is \<open>unsigned\<close>, so both are. The workers start at the mutex.
\<close>

definition clamp_threads :: "32 word \<Rightarrow> 32 word \<Rightarrow> 32 word" where
  "clamp_threads n hw = (if sint n \<le> 0 \<or> hw < n then hw else n)"

definition ThreadPool_ctor :: "32 word \<Rightarrow> 32 word \<Rightarrow> 'a pool" where
  "ThreadPool_ctor n hw =
     (let k = clamp_threads n hw in
      \<lparr>thread_num = k, quit = False, mtx = None, workers = replicate (nat (sint k)) Lock, tasks = [],
       owner = Using, submitted = [], taken = [], finished = []\<rparr>)"

section \<open>Operations\<close>

text \<open>\<open>cv.notify_one()\<close> wakes the sleeper \<open>who\<close>; \<open>cv.notify_all()\<close> wakes all of them. A woken worker
  contends for the mutex again.\<close>

definition notify_one :: "nat \<Rightarrow> 'a worker list \<Rightarrow> 'a worker list" where
  "notify_one who ws = (if who < length ws \<and> ws ! who = Asleep then ws[who := Lock] else ws)"

definition notify_all :: "'a worker list \<Rightarrow> 'a worker list" where
  "notify_all ws = map (\<lambda>w. case w of Asleep \<Rightarrow> Lock | _ \<Rightarrow> w) ws"

text \<open>\<open>enqueue\<close>: ends the process on a pool that is shutting down.\<close>

definition enqueue :: "'a \<Rightarrow> nat \<Rightarrow> 'a pool \<Rightarrow> 'a pool res" where
  "enqueue t who p =
     andThen (errif (quit p) ''Enqueue in a dying threadpool!'') (\<lambda>_.
       Ok (p\<lparr>tasks := tasks p @ [t], submitted := submitted p @ [t],
             workers := notify_one who (workers p)\<rparr>))"

text \<open>The worker's loop: taking the mutex; the block that holds it (the wait's predicate, the exit
  test, taking the first task); running the task.\<close>

definition worker_lock :: "nat \<Rightarrow> 'a pool \<Rightarrow> 'a pool" where
  "worker_lock i p = p\<lparr>mtx := Some i, workers := (workers p)[i := Check]\<rparr>"

definition worker_check :: "nat \<Rightarrow> 'a pool \<Rightarrow> 'a pool" where
  "worker_check i p =
     (if \<not> (quit p \<or> tasks p \<noteq> []) then p\<lparr>mtx := None, workers := (workers p)[i := Asleep]\<rparr>
      else if quit p \<and> tasks p = [] then p\<lparr>mtx := None, workers := (workers p)[i := Done]\<rparr>
      else p\<lparr>mtx := None, workers := (workers p)[i := Run (hd (tasks p))],
             tasks := tl (tasks p), taken := taken p @ [hd (tasks p)]\<rparr>)"

definition worker_run :: "nat \<Rightarrow> 'a \<Rightarrow> 'a pool \<Rightarrow> 'a pool" where
  "worker_run i t p = p\<lparr>workers := (workers p)[i := Lock], finished := finished p @ [t]\<rparr>"

text \<open>The destructor: signal, then join the threads in turn.\<close>

definition dtor_signal :: "'a pool \<Rightarrow> 'a pool" where
  "dtor_signal p = p\<lparr>quit := True, workers := notify_all (workers p), owner := Joining 0\<rparr>"

definition dtor_join :: "nat \<Rightarrow> 'a pool \<Rightarrow> 'a pool" where
  "dtor_join k p = p\<lparr>owner := (if k < length (workers p) then Joining (Suc k) else Destroyed)\<rparr>"

inductive pool_step :: "'a pool \<Rightarrow> 'a pool \<Rightarrow> bool" where
  lock: "i < length (workers p) \<Longrightarrow> workers p ! i = Lock \<Longrightarrow> mtx p = None \<Longrightarrow> pool_step p (worker_lock i p)"
| check: "i < length (workers p) \<Longrightarrow> workers p ! i = Check \<Longrightarrow> pool_step p (worker_check i p)"
| run: "i < length (workers p) \<Longrightarrow> workers p ! i = Run t \<Longrightarrow> pool_step p (worker_run i t p)"
| spurious: "i < length (workers p) \<Longrightarrow> workers p ! i = Asleep \<Longrightarrow>
     pool_step p (p\<lparr>workers := (workers p)[i := Lock]\<rparr>)"
| enqueue: "mtx p = None \<Longrightarrow> owner p \<noteq> Destroyed \<Longrightarrow>
     (Asleep \<in> set (workers p) \<longrightarrow> who < length (workers p) \<and> workers p ! who = Asleep) \<Longrightarrow>
     enqueue t who p = Ok p' \<Longrightarrow> pool_step p p'"
| signal: "mtx p = None \<Longrightarrow> owner p = Using \<Longrightarrow> pool_step p (dtor_signal p)"
| join: "owner p = Joining k \<Longrightarrow> (k < length (workers p) \<longrightarrow> workers p ! k = Done) \<Longrightarrow>
     pool_step p (dtor_join k p)"

text \<open>The steps that are the workers' own, when nobody wakes them.\<close>

inductive worker_step :: "'a pool \<Rightarrow> 'a pool \<Rightarrow> bool" where
  lock: "i < length (workers p) \<Longrightarrow> workers p ! i = Lock \<Longrightarrow> mtx p = None \<Longrightarrow> worker_step p (worker_lock i p)"
| check: "i < length (workers p) \<Longrightarrow> workers p ! i = Check \<Longrightarrow> worker_step p (worker_check i p)"
| run: "i < length (workers p) \<Longrightarrow> workers p ! i = Run t \<Longrightarrow> worker_step p (worker_run i t p)"

lemma worker_step_pool: "worker_step p p' \<Longrightarrow> pool_step p p'"
  by (induction rule: worker_step.induct) (auto intro: pool_step.intros)

definition pool_init :: "'a pool \<Rightarrow> bool" where
  "pool_init p \<longleftrightarrow> (\<exists>n hw. p = ThreadPool_ctor n hw)"

abbreviation pool_reach :: "'a pool \<Rightarrow> bool" where
  "pool_reach \<equiv> reach pool_init pool_step"

section \<open>Invariants\<close>

text \<open>The tasks being executed, and the workers that will look at the queue without being woken.\<close>

fun running :: "'a worker list \<Rightarrow> 'a multiset" where
  "running [] = {#}"
| "running (Run t # ws) = add_mset t (running ws)"
| "running (_ # ws) = running ws"

definition awake :: "'a worker \<Rightarrow> bool" where
  "awake w \<longleftrightarrow> w \<noteq> Asleep \<and> w \<noteq> Done"

definition mutex_inv :: "'a pool \<Rightarrow> bool" where
  "mutex_inv p \<longleftrightarrow> (\<forall>i < length (workers p). workers p ! i = Check \<longleftrightarrow> mtx p = Some i) \<and>
     (\<forall>i. mtx p = Some i \<longrightarrow> i < length (workers p))"

definition queue_inv :: "'a pool \<Rightarrow> bool" where
  "queue_inv p \<longleftrightarrow> taken p @ tasks p = submitted p \<and>
     mset (taken p) = mset (finished p) + running (workers p)"

definition wake_inv :: "'a pool \<Rightarrow> bool" where
  "wake_inv p \<longleftrightarrow>
     (tasks p \<noteq> [] \<and> workers p \<noteq> [] \<longrightarrow> (\<exists>w\<in>set (workers p). awake w)) \<and>
     (Done \<in> set (workers p) \<longrightarrow> quit p \<and> tasks p = []) \<and>
     (quit p \<longrightarrow> Asleep \<notin> set (workers p))"

definition owner_inv :: "'a pool \<Rightarrow> bool" where
  "owner_inv p \<longleftrightarrow> (case owner p of
       Using \<Rightarrow> \<not> quit p
     | Joining k \<Rightarrow> quit p \<and> k \<le> length (workers p) \<and> (\<forall>j<k. workers p ! j = Done)
     | Destroyed \<Rightarrow> quit p \<and> (\<forall>j<length (workers p). workers p ! j = Done))"

definition pool_inv :: "'a pool \<Rightarrow> bool" where
  "pool_inv p \<longleftrightarrow> mutex_inv p \<and> queue_inv p \<and> wake_inv p \<and> owner_inv p"

lemmas op_defs = worker_lock_def worker_check_def worker_run_def dtor_signal_def dtor_join_def
  notify_one_def notify_all_def

lemma running_append: "running (xs @ ys) = running xs + running ys"
  by (induction xs rule: running.induct) auto

lemma running_Cons: "running (w # ws) = running [w] + running ws"
  by (cases w) auto

lemma running_update:
  assumes "i < length ws"
  shows "running (ws[i := w]) + running [ws ! i] = running ws + running [w]"
proof -
  have "ws = take i ws @ [ws ! i] @ drop (Suc i) ws" using assms by (simp add: id_take_nth_drop)
  then have "running ws = running (take i ws) + running [ws ! i] + running (drop (Suc i) ws)"
    by (metis running_append add.assoc append_Cons append_Nil)
  moreover have "running (ws[i := w]) = running (take i ws) + running [w] + running (drop (Suc i) ws)"
    using assms running_Cons [of w "drop (Suc i) ws"]
    by (simp only: upd_conv_take_nth_drop running_append add.assoc)
  ultimately show ?thesis by (simp add: ac_simps)
qed

lemma running_simps [simp]:
  "running [Lock] = {#}" "running [Check] = {#}" "running [Asleep] = {#}" "running [Done] = {#}"
  "running [Run t] = {#t#}"
  by simp_all

lemma running_replicate: "running (replicate n Lock) = {#}"
  by (induction n) auto

lemma running_notify: "running (notify_all ws) = running ws" "running (notify_one who ws) = running ws"
proof -
  show "running (notify_all ws) = running ws"
    by (induction ws rule: running.induct) (auto simp: notify_all_def)
  show "running (notify_one who ws) = running ws"
    using running_update [of who ws Lock] by (auto simp: notify_one_def)
qed

section \<open>Every step keeps the invariants\<close>

lemma inv_init: "pool_init p \<Longrightarrow> pool_inv p"
  by (auto simp: pool_init_def ThreadPool_ctor_def Let_def pool_inv_def mutex_inv_def queue_inv_def
      wake_inv_def owner_inv_def running_replicate)

lemma mutex_update:
  assumes "mutex_inv p" and "i < length (workers p)"
    and "w = Check \<longleftrightarrow> m = Some i" and "m = Some i \<or> m = (if workers p ! i = Check then None else mtx p)"
    and "m = Some i \<longrightarrow> mtx p = None \<or> mtx p = Some i"
  shows "mutex_inv (p\<lparr>mtx := m, workers := (workers p)[i := w]\<rparr>)"
  using assms unfolding mutex_inv_def by (auto simp: nth_list_update split: if_splits)

lemma notify_nth [simp]:
  "i < length ws \<Longrightarrow> (notify_all ws ! i = Check) = (ws ! i = Check)"
  "i < length ws \<Longrightarrow> (notify_one who ws ! i = Check) = (ws ! i = Check)"
  "length (notify_all ws) = length ws" "length (notify_one who ws) = length ws"
  by (auto simp: notify_all_def notify_one_def nth_list_update split: worker.splits)

lemma mutex_cong:
  "length (workers p') = length (workers p) \<Longrightarrow> mtx p' = mtx p \<Longrightarrow>
   (\<And>i. i < length (workers p) \<Longrightarrow> (workers p' ! i = Check) = (workers p ! i = Check)) \<Longrightarrow>
   mutex_inv p \<Longrightarrow> mutex_inv p'"
  by (simp add: mutex_inv_def)

lemma mutex_free: "mutex_inv p \<Longrightarrow> mtx p = None \<Longrightarrow> i < length (workers p) \<Longrightarrow> workers p ! i \<noteq> Check"
  by (simp add: mutex_inv_def)

lemma step_mutex: "pool_step p p' \<Longrightarrow> mutex_inv p \<Longrightarrow> mutex_inv p'"
proof (induction rule: pool_step.induct)
  case (lock i p)
  then show ?case unfolding worker_lock_def by (intro mutex_update) auto
next
  case (check i p)
  have "mutex_inv (p\<lparr>mtx := None, workers := (workers p)[i := w]\<rparr>)" if "w \<noteq> Check" for w
    using check that by (intro mutex_update) auto
  then show ?case by (auto simp: worker_check_def mutex_inv_def)
next
  case (run i p t)
  then have "mutex_inv (p\<lparr>mtx := mtx p, workers := (workers p)[i := Lock]\<rparr>)"
    by (intro mutex_update) (auto simp: mutex_inv_def)
  then show ?case by (auto simp: worker_run_def mutex_inv_def)
next
  case (spurious i p)
  then have "mutex_inv (p\<lparr>mtx := mtx p, workers := (workers p)[i := Lock]\<rparr>)"
    by (intro mutex_update) (auto simp: mutex_inv_def)
  then show ?case by simp
next
  case (enqueue p who t p')
  show ?case by (rule mutex_cong [of p' p]) (use enqueue in \<open>auto simp: enqueue_def errif_andThen split: if_splits\<close>)
next
  case (signal p)
  show ?case by (rule mutex_cong [of "dtor_signal p" p]) (use signal in \<open>auto simp: dtor_signal_def\<close>)
next
  case (join p k)
  show ?case by (rule mutex_cong [of "dtor_join k p" p]) (use join in \<open>auto simp: dtor_join_def\<close>)
qed

lemma step_queue: "pool_step p p' \<Longrightarrow> queue_inv p \<Longrightarrow> queue_inv p'"
proof (induction rule: pool_step.induct)
  case (lock i p)
  then show ?case using running_update [of i "workers p" Check] by (simp add: queue_inv_def worker_lock_def)
next
  case (check i p)
  then show ?case
    using running_update [of i "workers p" "Run (hd (tasks p))"] running_update [of i "workers p" Asleep]
      running_update [of i "workers p" Done]
    by (auto simp: queue_inv_def worker_check_def)
next
  case (run i p t)
  then show ?case using running_update [of i "workers p" Lock] by (simp add: queue_inv_def worker_run_def)
next
  case (spurious i p)
  then show ?case using running_update [of i "workers p" Lock] by (simp add: queue_inv_def)
next
  case (enqueue p who t p')
  then show ?case by (auto simp: queue_inv_def enqueue_def errif_andThen running_notify split: if_splits)
qed (auto simp: queue_inv_def dtor_signal_def dtor_join_def running_notify)

lemma wake_update:
  assumes "wake_inv p" and "i < length (workers p)" and "awake w"
    and "tasks q = [] \<or> tasks p \<noteq> []" and "workers q = (workers p)[i := w]" and "quit q = quit p"
  shows "wake_inv q"
proof -
  have "Done \<in> set (workers q) \<Longrightarrow> Done \<in> set (workers p)" "Asleep \<in> set (workers q) \<Longrightarrow> Asleep \<in> set (workers p)"
    using assms(3,5) set_update_subset_insert [of "workers p" i w] by (auto simp: awake_def)
  moreover have "w \<in> set (workers q)" using assms(2,5) by (simp add: set_update_memI)
  ultimately show ?thesis using assms by (auto simp: wake_inv_def)
qed

lemma notify_set:
  "Asleep \<notin> set (notify_all ws)"
  "w \<noteq> Asleep \<Longrightarrow> w \<in> set ws \<Longrightarrow> w \<in> set (notify_all ws)"
  "Done \<in> set (notify_all ws) \<Longrightarrow> Done \<in> set ws"
  "w \<noteq> Asleep \<Longrightarrow> w \<in> set ws \<Longrightarrow> w \<in> set (notify_one who ws)"
  "Done \<in> set (notify_one who ws) \<Longrightarrow> Done \<in> set ws"
  "who < length ws \<Longrightarrow> ws ! who = Asleep \<Longrightarrow> Lock \<in> set (notify_one who ws)"
proof -
  show "w \<noteq> Asleep \<Longrightarrow> w \<in> set ws \<Longrightarrow> w \<in> set (notify_one who ws)"
  proof (cases "who < length ws \<and> ws ! who = Asleep")
    case True
    moreover assume "w \<noteq> Asleep" "w \<in> set ws"
    then obtain j where "j < length ws" "ws ! j = w" by (auto simp: in_set_conv_nth)
    ultimately show ?thesis using \<open>w \<noteq> Asleep\<close>
      by (auto simp: notify_one_def in_set_conv_nth nth_list_update intro!: exI [of _ j])
  qed (auto simp add: notify_one_def)
  show "Done \<in> set (notify_one who ws) \<Longrightarrow> Done \<in> set ws"
    using set_update_subset_insert [of ws who Lock] by (auto simp: notify_one_def split: if_splits)
qed (auto simp: notify_all_def notify_one_def image_iff set_update_memI split: worker.splits, metis worker.exhaust)

lemma enqueue_wake:
  assumes "enqueue t who p = Ok p'" and "Asleep \<in> set (workers p) \<Longrightarrow> who < length (workers p) \<and> workers p ! who = Asleep"
    and "wake_inv p"
  shows "wake_inv p'"
proof -
  have p': "\<not> quit p" "workers p' = notify_one who (workers p)" "quit p' = quit p"
    using assms(1) by (auto simp: enqueue_def errif_andThen split: if_splits)
  then have noDone: "Done \<notin> set (workers p)" using assms(3) by (auto simp: wake_inv_def)
  have "\<exists>w\<in>set (workers p'). awake w" if ne: "workers p' \<noteq> []"
  proof (cases "Asleep \<in> set (workers p)")
    case True
    then have "Lock \<in> set (workers p')" using assms(2) notify_set(6) by (auto simp: p'(2))
    then show ?thesis by (auto simp: awake_def)
  next
    case False
    have "workers p \<noteq> []" using ne by (auto simp: p'(2) notify_one_def)
    then obtain w where "w \<in> set (workers p)" by (meson list.set_sel(1))
    moreover have "w \<noteq> Asleep" "w \<noteq> Done" using \<open>w \<in> set (workers p)\<close> False noDone by metis+
    ultimately have "w \<in> set (workers p')" "awake w"
      using notify_set(4) [of w "workers p" who] by (simp_all add: p'(2) awake_def)
    then show ?thesis by blast
  qed
  then show ?thesis using noDone notify_set(5) p' by (auto simp: wake_inv_def)
qed

lemma step_wake: "pool_step p p' \<Longrightarrow> wake_inv p \<Longrightarrow> wake_inv p'"
proof (induction rule: pool_step.induct)
  case (lock i p)
  show ?case by (rule wake_update [of p i Check]) (use lock in \<open>auto simp: awake_def worker_lock_def\<close>)
next
  case (check i p)
  consider "\<not> quit p" "tasks p = []" | "quit p" "tasks p = []" | "tasks p \<noteq> []" by blast
  then show ?case
  proof cases
    case 1
    then show ?thesis using check set_update_subset_insert [of "workers p" i Asleep]
      by (auto simp: worker_check_def wake_inv_def)
  next
    case 2
    then show ?thesis using check set_update_subset_insert [of "workers p" i Done]
      by (auto simp: worker_check_def wake_inv_def)
  next
    case 3
    then show ?thesis
      by (intro wake_update [OF check(3,1), of "Run (hd (tasks p))"]) (auto simp: awake_def worker_check_def)
  qed
next
  case (run i p t)
  show ?case by (rule wake_update [of p i Lock]) (use run in \<open>auto simp: awake_def worker_run_def\<close>)
next
  case (spurious i p)
  show ?case by (rule wake_update [of p i Lock]) (use spurious in \<open>auto simp: awake_def\<close>)
next
  case (enqueue p who t p')
  then show ?case by (auto intro: enqueue_wake)
next
  case (signal p)
  have "\<exists>w\<in>set (notify_all (workers p)). awake w" if "w \<in> set (workers p)" "awake w" for w
    using that notify_set(2) by (auto simp: awake_def)
  then show ?case using signal notify_set(1,3) [of "workers p"]
    by (auto simp: wake_inv_def dtor_signal_def) (auto simp: notify_all_def)
next
  case (join p k)
  then show ?case by (simp add: wake_inv_def dtor_join_def)
qed

lemma owner_cong:
  "owner p' = owner p \<Longrightarrow> quit p' = quit p \<Longrightarrow> workers p' = (workers p)[i := w] \<Longrightarrow>
   i < length (workers p) \<Longrightarrow> workers p ! i \<noteq> Done \<Longrightarrow> owner_inv p \<Longrightarrow> owner_inv p'"
  by (auto simp: owner_inv_def nth_list_update split: owner.splits)

lemma step_owner: "pool_step p p' \<Longrightarrow> owner_inv p \<Longrightarrow> owner_inv p'"
proof (induction rule: pool_step.induct)
  case (lock i p)
  show ?case by (rule owner_cong [of _ p i Check]) (use lock in \<open>auto simp: worker_lock_def\<close>)
next
  case (check i p)
  have ok: "owner_inv q" if "owner q = owner p" "quit q = quit p" "workers q = (workers p)[i := w]" for q w
    by (rule owner_cong [OF that]) (use check in auto)
  show ?case by (auto simp: worker_check_def intro!: ok)
next
  case (run i p t)
  show ?case by (rule owner_cong [of _ p i Lock]) (use run in \<open>auto simp: worker_run_def\<close>)
next
  case (spurious i p)
  show ?case by (rule owner_cong [of _ p i Lock]) (use spurious in auto)
next
  case (enqueue p who t p')
  then have p': "\<not> quit p" "quit p' = quit p" "owner p' = owner p"
    by (auto simp: enqueue_def errif_andThen split: if_splits)
  then have "owner p = Using" using enqueue by (auto simp: owner_inv_def split: owner.splits)
  then show ?case using p' by (simp add: owner_inv_def)
next
  case (signal p)
  then show ?case by (simp add: owner_inv_def dtor_signal_def)
next
  case (join p k)
  then show ?case by (auto simp: owner_inv_def dtor_join_def less_Suc_eq)
qed

interpretation pool: step_system pool_init pool_step pool_inv
proof (unfold_locales, goal_cases)
  case (1 s)
  then show ?case by (rule inv_init)
next
  case (2 s s')
  then show ?case by (auto simp: pool_inv_def step_mutex step_queue step_wake step_owner)
qed

section \<open>Shutting down\<close>

text \<open>How much work is left once \<open>quit\<close> is set: every step makes it smaller.\<close>

fun rank :: "'a worker \<Rightarrow> nat" where
  "rank Lock = 2"
| "rank Check = 1"
| "rank Asleep = 0"
| "rank (Run t) = 3"
| "rank Done = 0"

definition work :: "'a pool \<Rightarrow> nat" where
  "work p = sum_list (map rank (workers p)) + 3 * length (tasks p) +
     (case owner p of Using \<Rightarrow> length (workers p) + 2
      | Joining k \<Rightarrow> Suc (length (workers p)) - k
      | Destroyed \<Rightarrow> 0)"

lemma rank_update:
  "i < length ws \<Longrightarrow> sum_list (map rank (ws[i := w])) + rank (ws ! i) = sum_list (map rank ws) + rank w"
  by (induction ws arbitrary: i) (auto split: nat.splits)

lemma step_work:
  assumes "pool_step p p'" and "pool_inv p" and "quit p"
  shows "work p' < work p \<and> quit p'"
  using assms
proof (induction rule: pool_step.induct)
  case (lock i p)
  then show ?case using rank_update [of i "workers p" Check]
    by (simp add: work_def worker_lock_def split: owner.splits)
next
  case (check i p)
  then show ?case
    using rank_update [of i "workers p" Done] rank_update [of i "workers p" "Run (hd (tasks p))"]
    by (cases "tasks p") (auto simp: work_def worker_check_def split: owner.splits)
next
  case (run i p t)
  then show ?case using rank_update [of i "workers p" Lock]
    by (simp add: work_def worker_run_def split: owner.splits)
next
  case (spurious i p)
  then have "Asleep \<in> set (workers p)" by (metis nth_mem)
  then show ?case using spurious by (simp add: pool_inv_def wake_inv_def)
next
  case (enqueue p who t p')
  then show ?case by (simp add: enqueue_def)
next
  case (signal p)
  then show ?case by (simp add: pool_inv_def owner_inv_def)
next
  case (join p k)
  then show ?case by (auto simp: work_def dtor_join_def pool_inv_def owner_inv_def)
qed

lemma awake_steps:
  assumes inv: "mutex_inv p" and k: "k < length (workers p)" and "awake (workers p ! k)"
  shows "\<exists>p'. worker_step p p'"
proof -
  consider "workers p ! k = Lock" | "workers p ! k = Check" | t where "workers p ! k = Run t"
    using assms(3) by (cases "workers p ! k") (auto simp: awake_def)
  then show ?thesis
  proof cases
    case 1
    show ?thesis
    proof (cases "mtx p")
      case None
      then show ?thesis using 1 k worker_step.lock by blast
    next
      case (Some i)
      then have "i < length (workers p)" "workers p ! i = Check"
        using inv by (auto simp: mutex_inv_def)
      then show ?thesis using worker_step.check by blast
    qed
  next
    case 2
    then show ?thesis using k worker_step.check [of k p] by blast
  next
    case 3
    then show ?thesis using k worker_step.run [of k p] by blast
  qed
qed

lemma shutdown_progress:
  assumes inv: "pool_inv p" and "quit p" and "owner p \<noteq> Destroyed"
  shows "\<exists>p'. pool_step p p'"
proof -
  obtain k where k: "owner p = Joining k"
    using assms by (auto simp: pool_inv_def owner_inv_def split: owner.splits)
  show ?thesis
  proof (cases "k < length (workers p) \<and> workers p ! k \<noteq> Done")
    case False
    then show ?thesis using pool_step.join [OF k] by blast
  next
    case True
    then have "awake (workers p ! k)"
      using assms by (metis nth_mem pool_inv_def wake_inv_def awake_def)
    then show ?thesis
      using True inv awake_steps [of p k] worker_step_pool [of p] by (auto simp: pool_inv_def)
  qed
qed

lemma shutdown_completes:
  assumes "pool_inv p" and "quit p"
  shows "\<exists>p'. pool_step\<^sup>*\<^sup>* p p' \<and> owner p' = Destroyed"
  using assms
proof (induction "work p" arbitrary: p rule: less_induct)
  case less
  show ?case
  proof (cases "owner p = Destroyed")
    case False
    then obtain q where q: "pool_step p q" using shutdown_progress less.prems by blast
    then obtain p' where "pool_step\<^sup>*\<^sup>* q p'" "owner p' = Destroyed"
      using less.hyps [of q] step_work [OF q less.prems] pool.inv_step [OF less.prems(1) q] by blast
    then show ?thesis using q by (meson converse_rtranclp_into_rtranclp)
  qed blast
qed

lemma shutdown_bounded:
  "(pool_step ^^ n) p p' \<Longrightarrow> pool_inv p \<Longrightarrow> quit p \<Longrightarrow> n + work p' \<le> work p"
proof (induction n arbitrary: p)
  case (Suc n)
  then obtain q where q: "pool_step p q" "(pool_step ^^ n) q p'" by (blast elim: relpowp_Suc_E2)
  have "n + work p' \<le> work q"
    using Suc q step_work pool.inv_step by blast
  then show ?case using step_work [OF q(1) Suc.prems(2,3)] by simp
qed simp

lemma all_done_idle: "\<forall>w\<in>set ws. w = Done \<Longrightarrow> running ws = {#}"
  by (induction ws) auto

lemma destroyed_drained:
  assumes inv: "pool_inv p" and "owner p = Destroyed" and ne: "workers p \<noteq> []"
  shows "tasks p = [] \<and> taken p = submitted p \<and> mset (finished p) = mset (submitted p)"
proof -
  have all: "\<forall>w\<in>set (workers p). w = Done"
    using assms(1,2) by (auto simp: pool_inv_def owner_inv_def in_set_conv_nth)
  have "Done \<in> set (workers p)" using all ne by (metis list.set_sel(1))
  then have tasks: "tasks p = []" using inv by (simp add: pool_inv_def wake_inv_def)
  have queue: "queue_inv p" using inv by (simp add: pool_inv_def)
  show ?thesis using queue by (auto simp: queue_inv_def tasks all_done_idle [OF all])
qed

section \<open>Serving the queue\<close>






section \<open>The number of threads\<close>

lemma nonneg_uint: "0 \<le> sint w \<Longrightarrow> uint w = sint w" for w :: "32 word"
  using sint_lt [of w] by (simp add: uint_sint take_bit_eq_mod)

lemma clamp_bounds:
  assumes "0 < sint hw"
  shows "0 < sint (clamp_threads n hw) \<and> sint (clamp_threads n hw) \<le> sint hw"
proof (cases "sint n \<le> 0 \<or> hw < n")
  case False
  then show ?thesis using assms
    by (simp add: clamp_threads_def word_le_def not_less nonneg_uint)
qed (use assms in \<open>auto simp: clamp_threads_def\<close>)

section \<open>Properties\<close>



lemma no_workers_step:
  "pool_step p p' \<Longrightarrow> workers p = [] \<Longrightarrow> workers p' = [] \<and> taken p' = taken p \<and> finished p' = finished p"
  by (induction rule: pool_step.induct)
    (auto simp: enqueue_def errif_andThen notify_one_def notify_all_def dtor_signal_def dtor_join_def split: if_splits)

lemma no_workers_queue:
  "pool_step p p' \<Longrightarrow> workers p = [] \<Longrightarrow> tasks p = submitted p \<Longrightarrow> tasks p' = submitted p'"
  by (induction rule: pool_step.induct)
    (auto simp: enqueue_def errif_andThen dtor_signal_def dtor_join_def split: if_splits)

lemma quit_step_keeps:
  "pool_step p p' \<Longrightarrow> quit p \<Longrightarrow> submitted p' = submitted p \<and> length (workers p') = length (workers p) \<and> quit p'"
  by (induction rule: pool_step.induct)
    (auto simp: enqueue_def op_defs)

lemma shutdown_keeps:
  "pool_step\<^sup>*\<^sup>* p p' \<Longrightarrow> pool_inv p \<Longrightarrow> quit p \<longrightarrow> submitted p' = submitted p \<and>
     length (workers p') = length (workers p) \<and> quit p'"
  by (induction rule: rtranclp_induct) (use quit_step_keeps in auto)

lemma owner_forward: "pool_step p p' \<Longrightarrow> pool_inv p \<Longrightarrow> owner p \<le> owner p'"
  by (induction rule: pool_step.induct)
    (auto simp: op_defs enqueue_def errif_andThen less_eq_owner_def split: owner.splits if_splits)

text \<open>Two threads, the second of which has gone to sleep; a task is then enqueued.\<close>

definition pool_two :: "nat pool" where
  "pool_two = ThreadPool_ctor 2 4"

lemma pool_two_eq: "pool_two = \<lparr>thread_num = 2, quit = False, mtx = None, workers = [Lock, Lock], tasks = [],
  owner = Using, submitted = [], taken = [], finished = []\<rparr>"
proof -
  have "clamp_threads 2 4 = 2" by (simp add: clamp_threads_def)
  moreover have "replicate (nat (sint (2 :: 32 word))) Lock = [Lock, Lock]" by (simp add: eval_nat_numeral)
  ultimately show ?thesis by (simp add: pool_two_def ThreadPool_ctor_def Let_def)
qed

definition pool_busy :: "nat pool" where
  "pool_busy = pool_two\<lparr>tasks := [7], submitted := [7]\<rparr>"

lemma pool_busy_reach: "pool_reach pool_busy"
proof -
  have "pool_reach pool_two" by (rule reach_init) (auto simp: pool_init_def pool_two_def)
  moreover have "pool_step pool_two pool_busy"
    by (rule pool_step.enqueue [where who = 0 and t = 7])
      (simp_all add: pool_two_eq pool_busy_def enqueue_def notify_one_def)
  ultimately show ?thesis by (rule reach_step)
qed

definition pool_quit :: "nat pool" where
  "pool_quit = dtor_signal pool_busy"

lemma pool_quit_reach: "pool_reach pool_quit"
  using pool_busy_reach unfolding pool_quit_def
  by (rule reach_step) (rule pool_step.signal, simp_all add: pool_busy_def pool_two_eq)

text \<open>
  C19: Tasks are neither lost, duplicated nor reordered: in every reachable state the tasks taken so
  far followed by those still queued are the tasks submitted, in submission order, and the tasks
  taken are those finished and those being run by a worker.
\<close>

theorem pool_conserves_tasks:
  assumes "pool_reach p"
  shows "taken p @ tasks p = submitted p \<and> mset (taken p) = mset (finished p) + running (workers p)"
  using pool.inv_reach [OF assms] by (simp add: pool_inv_def queue_inv_def)

theorem pool_conserves_tasks_witness: "taken pool_busy @ tasks pool_busy = submitted pool_busy"
  using pool_conserves_tasks [OF pool_busy_reach] by simp

text \<open>
  The queue is looked at by one worker at a time, the one that holds the mutex.
\<close>

theorem pool_mutual_exclusion:
  assumes "pool_reach p" and "i < length (workers p)" and "j < length (workers p)"
    and "workers p ! i = Check" and "workers p ! j = Check"
  shows "i = j \<and> mtx p = Some i"
  using pool.inv_reach [OF assms(1)] assms(2-) by (auto simp: pool_inv_def mutex_inv_def)

theorem pool_mutual_exclusion_witness: "mtx (worker_lock 0 pool_busy) = Some 0"
proof -
  have "pool_reach (worker_lock 0 pool_busy)"
    by (rule reach_step [OF pool_busy_reach], rule pool_step.lock) (simp_all add: pool_busy_def pool_two_eq)
  from pool_mutual_exclusion [OF this, of 0 0] show ?thesis
    by (simp add: worker_lock_def pool_busy_def pool_two_eq)
qed

text \<open>
  C18: No wake-up is lost: as long as there is a task in the queue and a worker at all, some worker
  can make a step by itself, without another \<open>enqueue\<close> and without a spurious wake-up.
\<close>

theorem pool_no_lost_wakeup:
  assumes "pool_reach p" and "tasks p \<noteq> []" and "workers p \<noteq> []"
  shows "\<exists>p'. worker_step p p'"
proof -
  have inv: "mutex_inv p" "wake_inv p" using pool.inv_reach [OF assms(1)] by (simp_all add: pool_inv_def)
  then obtain k where "k < length (workers p)" "awake (workers p ! k)"
    using assms(2,3) by (auto simp: wake_inv_def in_set_conv_nth)
  then show ?thesis by (rule awake_steps [OF inv(1)])
qed

theorem pool_no_lost_wakeup_witness: "\<exists>p'. worker_step pool_busy p'"
  by (rule pool_no_lost_wakeup [OF pool_busy_reach]) (simp_all add: pool_busy_def pool_two_eq)



text \<open>
  C21: Shutdown ends: once the destructor has signalled, there is a way to its end from every
  reachable state, and no run from there is longer than \<open>work p\<close> steps, so every maximal run joins all
  workers, no matter in which order the threads move.
\<close>

theorem pool_shutdown_ends:
  assumes "pool_reach p" and "quit p"
  shows "(\<exists>p'. pool_step\<^sup>*\<^sup>* p p' \<and> owner p' = Destroyed) \<and>
    (\<forall>n p'. (pool_step ^^ n) p p' \<longrightarrow> n \<le> work p) \<and>
    (owner p \<noteq> Destroyed \<longrightarrow> (\<exists>p'. pool_step p p'))"
proof -
  note inv = pool.inv_reach [OF assms(1)]
  have "n \<le> work p" if "(pool_step ^^ n) p p'" for n p'
    using shutdown_bounded [OF that inv assms(2)] by simp
  then show ?thesis using shutdown_completes [OF inv assms(2)] shutdown_progress [OF inv assms(2)] by blast
qed

theorem pool_shutdown_ends_witness: "\<exists>p'. pool_step\<^sup>*\<^sup>* pool_quit p' \<and> owner p' = Destroyed"
  using pool_shutdown_ends [OF pool_quit_reach] by (simp add: pool_quit_def dtor_signal_def)

text \<open>
  C20: Nothing is thrown away at shutdown: when the destructor of a pool that has threads returns, the
  queue is empty and every task ever submitted has been run exactly once.
\<close>

theorem pool_destroyed_is_drained:
  assumes "pool_reach p" and "owner p = Destroyed" and "workers p \<noteq> []"
  shows "tasks p = [] \<and> taken p = submitted p \<and> mset (finished p) = mset (submitted p)"
  by (rule destroyed_drained [OF pool.inv_reach [OF assms(1)] assms(2,3)])

theorem pool_destroyed_is_drained_witness:
  "\<exists>p. pool_reach p \<and> owner p = Destroyed \<and> tasks p = [] \<and> mset (finished p) = {#7::nat#}"
proof -
  have inv: "pool_inv pool_quit" by (rule pool.inv_reach [OF pool_quit_reach])
  obtain p where p: "pool_step\<^sup>*\<^sup>* pool_quit p" "owner p = Destroyed"
    using shutdown_completes [OF inv] by (auto simp: pool_quit_def dtor_signal_def)
  have "submitted p = [7] \<and> length (workers p) = 2"
    using shutdown_keeps [OF p(1) inv] by (simp add: pool_quit_def dtor_signal_def notify_all_def pool_busy_def pool_two_eq)
  then have "submitted p = [7]" "workers p \<noteq> []" by auto
  then show ?thesis using pool_destroyed_is_drained [OF pool.reach_steps [OF pool_quit_reach p(1)] p(2)]
      pool.reach_steps [OF pool_quit_reach p(1)] p(2) by (auto intro!: exI [of _ p])
qed

text \<open>
  A pool's life goes one way: using, joining thread after thread, destroyed. No step goes back,
  and once the destructor has signalled, no task is accepted any more (\<open>enqueue\<close> ends the process).
\<close>

theorem pool_life_goes_forward:
  assumes "pool_reach p" and "pool_step\<^sup>*\<^sup>* p p'"
  shows "owner p \<le> owner p' \<and> (quit p \<longrightarrow> quit p' \<and> submitted p' = submitted p \<and>
    enqueue t who p' = Fault (ProcessExit ''Enqueue in a dying threadpool!''))"
proof -
  have "owner p \<le> owner p'"
    using assms(2)
  proof (induction rule: rtranclp_induct)
    case (step q r)
    then have "pool_inv q" using pool.inv_reach [OF assms(1)] pool.inv_steps by blast
    then show ?case using step owner_forward order_trans by blast
  qed simp
  then show ?thesis
    using shutdown_keeps [OF assms(2) pool.inv_reach [OF assms(1)]] by (simp add: enqueue_def)
qed

theorem pool_life_goes_forward_witness: "Using \<le> owner pool_quit \<and> owner pool_quit \<le> owner pool_quit"
  using pool_life_goes_forward [OF pool_quit_reach, of pool_quit] by (simp add: less_eq_owner_def)

text \<open>
  The number of threads is within what the hardware offers: positive and at most
  \<open>hardware_concurrency\<close>, whatever is asked for, if that is positive as an \<open>int\<close>.
\<close>

theorem thread_count_bounds:
  assumes "0 < sint hw"
  shows "workers (ThreadPool_ctor n hw) \<noteq> [] \<and> int (length (workers (ThreadPool_ctor n hw))) \<le> sint hw"
  using clamp_bounds [OF assms, of n] by (simp add: ThreadPool_ctor_def Let_def)

theorem thread_count_bounds_witness: "workers (ThreadPool_ctor (-3) 8 :: nat pool) \<noteq> []"
  by (rule thread_count_bounds [THEN conjunct1, of 8]) simp

text \<open>
  C40: Where \<open>hardware_concurrency\<close> returns 0 ("not computable"), the pool has no threads, whatever
  number was asked for: no task is ever run, and all of them are still queued whenever the pool is
  looked at, its destruction included.
\<close>

theorem no_hardware_threads_no_work:
  assumes "reach (\<lambda>p. p = ThreadPool_ctor n 0) pool_step p"
  shows "workers p = [] \<and> finished p = [] \<and> tasks p = submitted p"
  using assms
proof (induction rule: reach.induct)
  case (reach_init p)
  have "clamp_threads n 0 = 0" by (auto simp: clamp_threads_def word_gt_0)
  then show ?case by (simp add: reach_init ThreadPool_ctor_def Let_def)
next
  case (reach_step p p')
  then show ?case using no_workers_step [of p p'] no_workers_queue [of p p'] by auto
qed

theorem no_hardware_threads_no_work_witness:
  "workers (ThreadPool_ctor 4 0 :: nat pool) = [] \<and> finished (ThreadPool_ctor 4 0 :: nat pool) = []"
proof -
  have "reach (\<lambda>p. p = ThreadPool_ctor 4 0) pool_step (ThreadPool_ctor 4 0 :: nat pool)"
    by (rule reach_init) (rule refl)
  from no_hardware_threads_no_work [OF this] show ?thesis by simp
qed

end
