(* ===== verification/Pool_Spec.thy ===== *)
theory Pool_Spec
  imports ThreadPool
begin

text \<open>
  What \<open>ThreadPool\<close> promises to its user, without threads, mutex or wake-ups: a first-in-first-out
  queue that serves at most as many tasks at a time as the pool has threads, accepts tasks until
  it is closed, and, where it has a thread at all, is gone only after everything accepted was
  finished. The theory shows that the pool's steps implement this queue.
\<close>

section \<open>The task queue\<close>

datatype phase = Open | Closing | Closed

record 'a task_queue =
  slots :: nat
  phase :: phase
  waiting :: "'a list"
  executing :: "'a multiset"
  completed :: "'a list"

inductive queue_step :: "'a task_queue \<Rightarrow> 'a task_queue \<Rightarrow> bool" where
  submit: "phase q = Open \<Longrightarrow> queue_step q (q\<lparr>waiting := waiting q @ [t]\<rparr>)"
| start: "waiting q = t # ts \<Longrightarrow> size (executing q) < slots q \<Longrightarrow> phase q \<noteq> Closed \<Longrightarrow>
     queue_step q (q\<lparr>waiting := ts, executing := add_mset t (executing q)\<rparr>)"
| finish: "executing q = add_mset t ex \<Longrightarrow> phase q \<noteq> Closed \<Longrightarrow>
     queue_step q (q\<lparr>executing := ex, completed := completed q @ [t]\<rparr>)"
| close: "phase q = Open \<Longrightarrow> queue_step q (q\<lparr>phase := Closing\<rparr>)"
| gone: "phase q = Closing \<Longrightarrow> executing q = {#} \<Longrightarrow> slots q = 0 \<or> waiting q = [] \<Longrightarrow>
     queue_step q (q\<lparr>phase := Closed\<rparr>)"

inductive_cases queue_stepE: "queue_step q q'"

definition queue_init :: "'a task_queue \<Rightarrow> bool" where
  "queue_init q \<longleftrightarrow> phase q = Open \<and> waiting q = [] \<and> executing q = {#} \<and> completed q = []"

text \<open>What the specification itself guarantees.\<close>

definition task_queue_inv :: "'a task_queue \<Rightarrow> bool" where
  "task_queue_inv q \<longleftrightarrow> size (executing q) \<le> slots q \<and>
     (phase q = Closed \<longrightarrow> executing q = {#} \<and> (slots q = 0 \<or> waiting q = []))"

interpretation queue: step_system queue_init queue_step task_queue_inv
proof
  show "queue_init q \<Longrightarrow> task_queue_inv q" for q :: "'a task_queue"
    by (simp add: queue_init_def task_queue_inv_def)
  show "task_queue_inv q'" if "task_queue_inv q" and "queue_step q q'" for q q' :: "'a task_queue"
    using that(2,1) by (cases rule: queue_step.cases) (auto simp: task_queue_inv_def)
qed

section \<open>The pool as a task queue\<close>

fun phase_of :: "owner \<Rightarrow> phase" where
  "phase_of Using = Open"
| "phase_of (Joining k) = Closing"
| "phase_of Destroyed = Closed"

definition queue_of :: "'a pool \<Rightarrow> 'a task_queue" where
  "queue_of p = \<lparr>slots = length (workers p), phase = phase_of (owner p), waiting = tasks p,
     executing = running (workers p), completed = finished p\<rparr>"

lemma phase_of_simps [simp]:
  "phase_of w = Open \<longleftrightarrow> w = Using" "phase_of w = Closed \<longleftrightarrow> w = Destroyed"
  "phase_of w = Closing \<longleftrightarrow> (\<exists>k. w = Joining k)"
  by (cases w; simp)+

lemma running_size: "size (running ws) \<le> length ws"
  by (induction ws rule: running.induct) auto

lemma worker_not_destroyed:
  "pool_inv p \<Longrightarrow> i < length (workers p) \<Longrightarrow> workers p ! i \<noteq> Done \<Longrightarrow> owner p \<noteq> Destroyed"
  by (auto simp: pool_inv_def owner_inv_def)

lemma start_step:
  assumes "pool_inv p" and "i < length (workers p)" and "workers p ! i = Check" and "tasks p = t # ts"
  shows "queue_step (queue_of p) (queue_of (worker_check i p))"
proof -
  have run: "running ((workers p)[i := Run t]) = add_mset t (running (workers p))"
    using running_update [OF assms(2), of "Run t"] assms(3) by simp
  then have "size (running (workers p)) < length (workers p)"
    using running_size [of "(workers p)[i := Run t]"] by simp
  moreover have "owner p \<noteq> Destroyed" using worker_not_destroyed [OF assms(1,2)] assms(3) by simp
  ultimately show ?thesis
    using queue_step.start [of "queue_of p" t ts] assms(4) by (simp add: queue_of_def worker_check_def run)
qed

lemma finish_step:
  assumes "pool_inv p" and "i < length (workers p)" and "workers p ! i = Run t"
  shows "queue_step (queue_of p) (queue_of (worker_run i t p))"
proof -
  have "running (workers p) = add_mset t (running ((workers p)[i := Lock]))"
    using running_update [OF assms(2), of Lock] assms(3) by simp
  moreover have "owner p \<noteq> Destroyed" using worker_not_destroyed [OF assms(1,2)] assms(3) by simp
  ultimately show ?thesis
    using queue_step.finish [of "queue_of p" t "running ((workers p)[i := Lock])"]
    by (simp add: queue_of_def worker_run_def)
qed

lemma join_step:
  assumes "pool_inv p" and "owner p = Joining k" and "k < length (workers p) \<longrightarrow> workers p ! k = Done"
  shows "queue_of (dtor_join k p) = queue_of p \<or> queue_step (queue_of p) (queue_of (dtor_join k p))"
proof (cases "k < length (workers p)")
  case False
  then have idle: "\<forall>w\<in>set (workers p). w = Done"
    using assms by (auto simp: pool_inv_def owner_inv_def in_set_conv_nth)
  then have "running (workers p) = {#}" by (rule all_done_idle)
  moreover have "length (workers p) = 0 \<or> tasks p = []"
    using assms(1) idle by (cases "workers p") (auto simp: pool_inv_def wake_inv_def)
  ultimately show ?thesis
    using queue_step.gone [of "queue_of p"] assms(2) False by (simp add: queue_of_def dtor_join_def)
qed (simp add: queue_of_def dtor_join_def assms(2))

lemma idle_update:
  "i < length ws \<Longrightarrow> running [ws ! i] = {#} \<Longrightarrow> running [w] = {#} \<Longrightarrow> running (ws[i := w]) = running ws"
  using running_update [of i ws w] by simp

lemma pool_simulates:
  assumes "pool_inv p" and "pool_step p p'"
  shows "queue_of p' = queue_of p \<or> queue_step (queue_of p) (queue_of p')"
  using assms(2)
proof cases
  case (lock i)
  then show ?thesis by (simp add: queue_of_def worker_lock_def idle_update)
next
  case (check i)
  show ?thesis
  proof (cases "tasks p")
    case Nil
    then show ?thesis using check by (simp add: queue_of_def worker_check_def idle_update)
  next
    case (Cons t ts)
    then show ?thesis using start_step [OF assms(1)] check by simp
  qed
next
  case (run i t)
  then show ?thesis using finish_step [OF assms(1)] by simp
next
  case (spurious i)
  then show ?thesis by (simp add: queue_of_def idle_update)
next
  case (enqueue who t)
  then have q: "\<not> quit p" "p' = p\<lparr>tasks := tasks p @ [t], submitted := submitted p @ [t],
             workers := notify_one who (workers p)\<rparr>" by (auto simp: enqueue_def errif_andThen split: if_splits)
  have "owner p = Using" using assms(1) q(1) by (auto simp: pool_inv_def owner_inv_def split: owner.splits)
  then show ?thesis using queue_step.submit [of "queue_of p" t] by (simp add: q(2) queue_of_def running_notify)
next
  case signal
  then show ?thesis using queue_step.close [of "queue_of p"] by (simp add: queue_of_def dtor_signal_def running_notify)
next
  case (join k)
  then show ?thesis using join_step [OF assms(1)] by simp
qed

interpretation pool_queue: simulation pool_init pool_step pool_inv queue_init queue_step queue_of
proof
  show "pool_init p \<Longrightarrow> queue_init (queue_of p)" for p :: "'a pool"
    by (auto simp: pool_init_def ThreadPool_ctor_def Let_def queue_init_def queue_of_def running_replicate)
qed (rule pool_simulates)

section \<open>Properties\<close>

text \<open>
  C5: the thread pool implements the task queue. Whatever its threads do, every state it can reach
  is one the queue can reach, and any run from it is a run of the queue: tasks are started in the
  order they were accepted, never more at once than there are threads, none is accepted once the
  destructor has begun, and the pool is gone only when nothing is executing and, if it has a
  thread, nothing is waiting.
\<close>

theorem pool_refines_queue:
  assumes "pool_reach p" and "pool_step\<^sup>*\<^sup>* p p'"
  shows "reach queue_init queue_step (queue_of p) \<and> queue_step\<^sup>*\<^sup>* (queue_of p) (queue_of p') \<and>
    task_queue_inv (queue_of p')"
  using pool_queue.abs_reach [OF assms(1)] pool_queue.abs_steps [OF assms(2) pool.inv_reach [OF assms(1)]]
    queue.inv_steps queue.inv_reach by blast

theorem pool_refines_queue_witness:
  "queue_step\<^sup>*\<^sup>* (queue_of pool_busy) (queue_of pool_quit) \<and> waiting (queue_of pool_busy) = [7] \<and>
   phase (queue_of pool_quit) = Closing"
proof -
  have "pool_step pool_busy pool_quit"
    unfolding pool_quit_def by (rule pool_step.signal) (simp_all add: pool_busy_def pool_two_eq)
  then have "pool_step\<^sup>*\<^sup>* pool_busy pool_quit" by simp
  from pool_refines_queue [OF pool_busy_reach this]
  have "queue_step\<^sup>*\<^sup>* (queue_of pool_busy) (queue_of pool_quit)" by blast
  then show ?thesis by (simp add: queue_of_def pool_busy_def pool_two_eq pool_quit_def dtor_signal_def)
qed

end
