(* ===== verification/GaussConnector.thy ===== *)
theory GaussConnector
  imports Prelude
begin

text \<open>
  \<open>inc/opengauss/GaussConnector.hpp\<close>, \<open>src/opengauss/GaussConnector.cpp\<close>: the connection to the
  database and its three commands. The client library libpq is not part of the repository (only its
  header is, for the enumerations): its calls are the fields of a record \<open>'d pq\<close> over an arbitrary
  library state \<open>'d\<close>, and \<open>pq_trace\<close> is the history of the calls the class makes. Strings given to
  the library are byte lists without their terminator; an error buffer is a character array or null.
\<close>

datatype ConnStatusType =
    CONNECTION_OK | CONNECTION_BAD | CONNECTION_STARTED | CONNECTION_MADE
  | CONNECTION_AWAITING_RESPONSE | CONNECTION_AUTH_OK | CONNECTION_SETENV | CONNECTION_SSL_STARTUP
  | CONNECTION_NEEDED | CONNECTION_CHECK_WRITABLE | CONNECTION_CONSUME | CONNECTION_CHECK_TARGET
  | CONNECTION_CHECK_STANDBY

datatype ExecStatusType =
    PGRES_EMPTY_QUERY | PGRES_COMMAND_OK | PGRES_TUPLES_OK | PGRES_COPY_OUT | PGRES_COPY_IN
  | PGRES_BAD_RESPONSE | PGRES_NONFATAL_ERROR | PGRES_FATAL_ERROR | PGRES_COPY_BOTH
  | PGRES_SINGLE_TUPLE

section \<open>The library below\<close>

record 'd pq =
  pq_connectdb :: "string \<Rightarrow> 'd \<Rightarrow> ptr \<times> 'd"
  pq_status :: "ptr \<Rightarrow> 'd \<Rightarrow> ConnStatusType"
  pq_exec :: "ptr \<Rightarrow> byte list \<Rightarrow> 'd \<Rightarrow> ptr \<times> 'd"
  pq_resultStatus :: "ptr \<Rightarrow> 'd \<Rightarrow> ExecStatusType"
  pq_errorMessage :: "ptr \<Rightarrow> 'd \<Rightarrow> byte list"
  pq_clear :: "ptr \<Rightarrow> 'd \<Rightarrow> 'd"
  pq_finish :: "ptr \<Rightarrow> 'd \<Rightarrow> 'd"

datatype pq_call = PqConnect ptr | PqExec "byte list" ptr | PqClear ptr | PqFinish ptr

record 'd db =
  lib :: 'd
  pq_trace :: "pq_call list"

definition PQconnectdb :: "'d pq \<Rightarrow> string \<Rightarrow> 'd db \<Rightarrow> ptr \<times> 'd db" where
  "PQconnectdb pq info s = (let (c, d) = pq_connectdb pq info (lib s)
     in (c, \<lparr>lib = d, pq_trace = pq_trace s @ [PqConnect c]\<rparr>))"

definition PQexec :: "'d pq \<Rightarrow> ptr \<Rightarrow> byte list \<Rightarrow> 'd db \<Rightarrow> ptr \<times> 'd db" where
  "PQexec pq c cmd s = (let (r, d) = pq_exec pq c cmd (lib s)
     in (r, \<lparr>lib = d, pq_trace = pq_trace s @ [PqExec cmd r]\<rparr>))"

definition PQclear :: "'d pq \<Rightarrow> ptr \<Rightarrow> 'd db \<Rightarrow> 'd db" where
  "PQclear pq r s = \<lparr>lib = pq_clear pq r (lib s), pq_trace = pq_trace s @ [PqClear r]\<rparr>"

definition PQfinish :: "'d pq \<Rightarrow> ptr \<Rightarrow> 'd db \<Rightarrow> 'd db" where
  "PQfinish pq c s = \<lparr>lib = pq_finish pq c (lib s), pq_trace = pq_trace s @ [PqFinish c]\<rparr>"

section \<open>The class\<close>

text \<open>\<open>res\<close> and \<open>nFields\<close> have no initialiser; \<open>nFields\<close> is never used.\<close>

record GaussConnector =
  conninfo :: string
  conn :: ptr
  res :: "ptr option"
  nFields :: "int option"

definition conninfo_text :: string where
  "conninfo_text =
     (let quoted = (\<lambda>t. [CHR 0x27] @ t @ [CHR 0x27]) in
      ''dbname=postgres port=5432 host='' @ quoted ''127.0.0.1'' @
      '' application_name=online-chat connect_timeout=10 sslmode=allow user='' @ quoted ''superuser'' @
      '' password='' @ quoted ''OGSql@123'')"

definition GaussConnector_ctor :: "'d pq \<Rightarrow> 'd db \<Rightarrow> (GaussConnector \<times> 'd db) res" where
  "GaussConnector_ctor pq s =
     (let (c, s) = PQconnectdb pq conninfo_text s in
      if pq_status pq c (lib s) \<noteq> CONNECTION_OK
      then Fault (ProcessExit ''Connection to database failed:'')
      else Ok (\<lparr>conninfo = conninfo_text, conn = c, res = None, nFields = None\<rparr>, s))"

definition GaussConnector_dtor :: "'d pq \<Rightarrow> GaussConnector \<Rightarrow> 'd db \<Rightarrow> 'd db" where
  "GaussConnector_dtor pq g s = PQfinish pq (conn g) s"

text \<open>A command returns its result code, the error buffer, the object and the library's state.\<close>

type_synonym 'd command =
  "GaussConnector \<Rightarrow> byte list \<Rightarrow> cell list option \<Rightarrow> 'd db \<Rightarrow>
   (int \<times> cell list option \<times> GaussConnector \<times> 'd db) res"

definition Gauss_insert :: "'d pq \<Rightarrow> 'd command" where
  "Gauss_insert pq g cmd errmsgBuffer s =
     (let (r, s) = PQexec pq (conn g) cmd s; g = g\<lparr>res := Some r\<rparr> in
      if pq_resultStatus pq r (lib s) \<noteq> PGRES_COMMAND_OK
      then andThen (case errmsgBuffer of None \<Rightarrow> Ok None
             | Some buf \<Rightarrow> andThen (strcat buf (pq_errorMessage pq (conn g) (lib s))) (\<lambda>b. Ok (Some b)))
           (\<lambda>errmsgBuffer. Ok (-1, errmsgBuffer, g, PQclear pq r s))
      else Ok (0, errmsgBuffer, g, s))"

definition Gauss_update :: "'d pq \<Rightarrow> 'd command" where
  "Gauss_update pq g cmd errmsgBuffer s =
     (let (r, s) = PQexec pq (conn g) cmd s; g = g\<lparr>res := Some r\<rparr> in
      if pq_resultStatus pq r (lib s) \<noteq> PGRES_COMMAND_OK
      then andThen (case errmsgBuffer of None \<Rightarrow> Ok None
             | Some buf \<Rightarrow> andThen (strcat buf (pq_errorMessage pq (conn g) (lib s))) (\<lambda>b. Ok (Some b)))
           (\<lambda>errmsgBuffer. Ok (-1, errmsgBuffer, g, PQclear pq r s))
      else Ok (0, errmsgBuffer, g, s))"

definition Gauss_omit :: "'d pq \<Rightarrow> 'd command" where
  "Gauss_omit pq g cmd errmsgBuffer s =
     (let (r, s) = PQexec pq (conn g) cmd s; g = g\<lparr>res := Some r\<rparr> in
      if pq_resultStatus pq r (lib s) \<noteq> PGRES_COMMAND_OK
      then andThen (case errmsgBuffer of None \<Rightarrow> Ok None
             | Some buf \<Rightarrow> andThen (strcat buf (pq_errorMessage pq (conn g) (lib s))) (\<lambda>b. Ok (Some b)))
           (\<lambda>errmsgBuffer. Ok (-1, errmsgBuffer, g, PQclear pq r s))
      else Ok (0, errmsgBuffer, g, s))"

text \<open>The variadic \<open>insert\<close> makes a string of one byte and then runs off its end without a \<open>return\<close>.\<close>

definition Gauss_insert_template :: "GaussConnector \<Rightarrow> byte list \<Rightarrow> 'args list \<Rightarrow> int res" where
  "Gauss_insert_template g tableName args = (let str = [2 :: byte] in Fault MissingReturn)"

lemmas command_defs = Gauss_insert_def Gauss_update_def Gauss_omit_def
lemmas pq_defs = PQconnectdb_def PQexec_def PQclear_def PQfinish_def

section \<open>What a command promises\<close>

text \<open>
  The contract the three commands share. \<open>outcome\<close> is the status the library gives the command's
  result, \<open>message\<close> the connection's error message after it.
\<close>

definition outcome :: "'d pq \<Rightarrow> GaussConnector \<Rightarrow> byte list \<Rightarrow> 'd db \<Rightarrow> ExecStatusType" where
  "outcome pq g cmd s = (let (r, s) = PQexec pq (conn g) cmd s in pq_resultStatus pq r (lib s))"

definition message :: "'d pq \<Rightarrow> GaussConnector \<Rightarrow> byte list \<Rightarrow> 'd db \<Rightarrow> byte list" where
  "message pq g cmd s = pq_errorMessage pq (conn g) (lib (snd (PQexec pq (conn g) cmd s)))"

definition result_of :: "'d pq \<Rightarrow> GaussConnector \<Rightarrow> byte list \<Rightarrow> 'd db \<Rightarrow> ptr" where
  "result_of pq g cmd s = fst (PQexec pq (conn g) cmd s)"

lemma strcat_returns: "\<exists>r. strcat buf msg = Some r"
proof -
  have "strcat buf msg \<noteq> None" by (simp add: strcat_def andThen_eq_None cstr_returns store_at_returns)
  then show ?thesis by blast
qed

locale db_command =
  fixes pq :: "'d pq" and command :: "'d command"
  assumes done_ok: "outcome pq g cmd s = PGRES_COMMAND_OK \<Longrightarrow>
      \<exists>s'. command g cmd eb s = Ok (0, eb, g\<lparr>res := Some (result_of pq g cmd s)\<rparr>, s') \<and>
        pq_trace s' = pq_trace s @ [PqExec cmd (result_of pq g cmd s)]"
    and failed_null: "outcome pq g cmd s \<noteq> PGRES_COMMAND_OK \<Longrightarrow>
      \<exists>s'. command g cmd None s = Ok (-1, None, g\<lparr>res := Some (result_of pq g cmd s)\<rparr>, s') \<and>
        pq_trace s' = pq_trace s @ [PqExec cmd (result_of pq g cmd s), PqClear (result_of pq g cmd s)]"
    and failed_buffer: "outcome pq g cmd s \<noteq> PGRES_COMMAND_OK \<Longrightarrow>
      strcat buf (message pq g cmd s) = Ok buf' \<Longrightarrow>
      \<exists>s'. command g cmd (Some buf) s = Ok (-1, Some buf', g\<lparr>res := Some (result_of pq g cmd s)\<rparr>, s') \<and>
        pq_trace s' = pq_trace s @ [PqExec cmd (result_of pq g cmd s), PqClear (result_of pq g cmd s)]"
    and failed_overrun: "outcome pq g cmd s \<noteq> PGRES_COMMAND_OK \<Longrightarrow>
      strcat buf (message pq g cmd s) = Fault f \<Longrightarrow> command g cmd (Some buf) s = Fault f"
begin

lemma command_cases:
  assumes "command g cmd eb s = Ok (n, eb', g', s')"
  shows "conn g' = conn g \<and> res g' = Some (result_of pq g cmd s) \<and>
    (outcome pq g cmd s = PGRES_COMMAND_OK \<and> n = 0 \<and> eb' = eb \<and>
       pq_trace s' = pq_trace s @ [PqExec cmd (result_of pq g cmd s)] \<or>
     outcome pq g cmd s \<noteq> PGRES_COMMAND_OK \<and> n = -1 \<and>
       pq_trace s' = pq_trace s @ [PqExec cmd (result_of pq g cmd s), PqClear (result_of pq g cmd s)])"
proof (cases "outcome pq g cmd s = PGRES_COMMAND_OK")
  case True
  then show ?thesis using done_ok [OF True, of eb] assms by auto
next
  case False
  show ?thesis
  proof (cases eb)
    case None
    then show ?thesis using failed_null [OF False] assms False by auto
  next
    case (Some buf)
    obtain r where "strcat buf (message pq g cmd s) = Some r" using strcat_returns by blast
    then consider buf' where "strcat buf (message pq g cmd s) = Ok buf'"
      | f where "strcat buf (message pq g cmd s) = Fault f"
      by (cases r) blast+
    then show ?thesis
    proof cases
      case (1 buf')
      then show ?thesis using failed_buffer [OF False 1] assms False Some by auto
    next
      case (2 f)
      then show ?thesis using failed_overrun [OF False 2] assms Some by simp
    qed
  qed
qed

lemma code_iff:
  "command g cmd eb s = Ok (n, eb', g', s') \<Longrightarrow> n = 0 \<longleftrightarrow> outcome pq g cmd s = PGRES_COMMAND_OK"
  using command_cases [of g cmd eb s n eb' g' s'] by auto

end

text \<open>The message of a failed command is appended to the text the caller's buffer already holds.\<close>

lemma strcat_text:
  assumes "cstr buf = Ok old" and "length old + length msg < length buf" and "0 \<notin> set msg"
  shows "\<exists>buf'. strcat buf msg = Ok buf' \<and> cstr buf' = Ok (old @ msg) \<and> length buf' = length buf"
proof -
  from assms(1) obtain rest where b: "buf = map Some old @ Some 0 # rest" and old: "0 \<notin> set old"
    by (auto simp: cstr_Ok_iff)
  have "strcat buf msg = Ok (map Some old @ map Some (msg @ [0]) @ drop (length (msg @ [0])) (Some 0 # rest))"
    using assms(2) by (simp add: strcat_def assms(1)) (simp add: b store_at_def)
  moreover have "cstr (map Some old @ map Some (msg @ [0]) @ drop (length (msg @ [0])) (Some 0 # rest)) = Ok (old @ msg)"
    using cstr_append_NUL [of "old @ msg"] old assms(3) by simp
  ultimately show ?thesis using assms(2) by (auto simp: b)
qed

lemma strcat_no_room:
  assumes "cstr buf = Ok old" and "length buf \<le> length old + length msg"
  shows "strcat buf msg = Fault OutOfBounds"
  using assms by (simp add: strcat_def store_at_def)

section \<open>The three commands keep the contract\<close>

lemma command_eq: "Gauss_update = Gauss_insert" "Gauss_omit = Gauss_insert"
  by (intro ext, simp add: command_defs)+

lemma insert_contract: "db_command pq (Gauss_insert pq)"
  by unfold_locales
    (auto simp: Gauss_insert_def outcome_def message_def result_of_def PQexec_def PQclear_def
      split: prod.splits)

interpretation ins: db_command pq "Gauss_insert pq" for pq :: "'d pq"
  by (rule insert_contract)

interpretation upd: db_command pq "Gauss_update pq" for pq :: "'d pq"
  unfolding command_eq by (rule insert_contract)

interpretation del: db_command pq "Gauss_omit pq" for pq :: "'d pq"
  unfolding command_eq by (rule insert_contract)

section \<open>Sessions\<close>

text \<open>A client of the class: a sequence of commands on one connector. \<open>unclear\<close> counts the results
  that were obtained and not given back.\<close>

datatype request = Insert "byte list" | Update "byte list" | Omit "byte list"

fun perform :: "'d pq \<Rightarrow> request \<Rightarrow> GaussConnector \<Rightarrow> cell list option \<Rightarrow> 'd db \<Rightarrow>
    (int \<times> cell list option \<times> GaussConnector \<times> 'd db) res" where
  "perform pq (Insert cmd) g eb s = Gauss_insert pq g cmd eb s"
| "perform pq (Update cmd) g eb s = Gauss_update pq g cmd eb s"
| "perform pq (Omit cmd) g eb s = Gauss_omit pq g cmd eb s"

fun session :: "'d pq \<Rightarrow> request list \<Rightarrow> GaussConnector \<Rightarrow> 'd db \<Rightarrow>
    (int list \<times> GaussConnector \<times> 'd db) res" where
  "session pq [] g s = Ok ([], g, s)"
| "session pq (q # qs) g s =
     andThen (perform pq q g None s) (\<lambda>(n, _, g, s).
     andThen (session pq qs g s) (\<lambda>(ns, g, s). Ok (n # ns, g, s)))"

fun pq_balance :: "pq_call list \<Rightarrow> int" where
  "pq_balance [] = 0"
| "pq_balance (PqExec cmd r # t) = pq_balance t + 1"
| "pq_balance (PqClear r # t) = pq_balance t - 1"
| "pq_balance (_ # t) = pq_balance t"

lemma pq_balance_append [simp]: "pq_balance (t @ u) = pq_balance t + pq_balance u"
  by (induction t rule: pq_balance.induct) auto

lemma perform_balance:
  assumes "perform pq q g eb s = Ok (n, eb', g', s')"
  shows "pq_balance (pq_trace s') = pq_balance (pq_trace s) + (if n = 0 then 1 else 0)"
proof (cases q)
  case (Insert cmd)
  then show ?thesis using assms ins.command_cases [of pq g cmd eb s n eb' g' s'] by auto
next
  case (Update cmd)
  then show ?thesis using assms upd.command_cases [of pq g cmd eb s n eb' g' s'] by auto
next
  case (Omit cmd)
  then show ?thesis using assms del.command_cases [of pq g cmd eb s n eb' g' s'] by auto
qed

lemma session_balance:
  "session pq qs g s = Ok (ns, g', s') \<Longrightarrow>
   pq_balance (pq_trace s') = pq_balance (pq_trace s) + int (length [n \<leftarrow> ns. n = 0])"
proof (induction qs arbitrary: g s ns)
  case (Cons q qs)
  then obtain n eb g1 s1 ns' where p: "perform pq q g None s = Ok (n, eb, g1, s1)"
    and r: "session pq qs g1 s1 = Ok (ns', g', s')" and ns: "ns = n # ns'"
    by (auto simp: andThen_eq_Ok)
  show ?case using Cons.IH [OF r] perform_balance [OF p] by (simp add: ns)
qed simp

lemma perform_returns: "\<exists>n g' s'. perform pq q g None s = Ok (n, None, g', s')"
  by (cases q) (simp_all add: command_defs Let_def split: prod.splits)

lemma session_returns: "\<exists>ns g' s'. session pq qs g s = Ok (ns, g', s') \<and> length ns = length qs"
proof (induction qs arbitrary: g s)
  case (Cons q qs)
  obtain n g1 s1 where p: "perform pq q g None s = Ok (n, None, g1, s1)" using perform_returns by blast
  then show ?case using Cons.IH [of g1 s1] by (auto simp: p)
qed simp

section \<open>A library for concrete inputs\<close>

text \<open>The library's state is the number of results handed out; a command's status is looked up by
  the command's first byte.\<close>

definition sim_pq :: "bool \<Rightarrow> nat pq" where
  "sim_pq up = \<lparr>pq_connectdb = (\<lambda>_ d. (Ptr 0, d)),
     pq_status = (\<lambda>_ _. if up then CONNECTION_OK else CONNECTION_BAD),
     pq_exec = (\<lambda>_ cmd d. (Ptr (if cmd = [] then 0 else unat (hd cmd)), Suc d)),
     pq_resultStatus = (\<lambda>r _. if r = Ptr 1 then PGRES_COMMAND_OK else if r = Ptr 2 then PGRES_TUPLES_OK
       else PGRES_FATAL_ERROR),
     pq_errorMessage = (\<lambda>_ _. [69, 82, 82]), pq_clear = (\<lambda>_ d. d), pq_finish = (\<lambda>_ d. d)\<rparr>"

definition sim_connector :: GaussConnector where
  "sim_connector = \<lparr>conninfo = conninfo_text, conn = Ptr 0, res = None, nFields = None\<rparr>"

definition sim_db :: "nat db" where
  "sim_db = \<lparr>lib = 0, pq_trace = []\<rparr>"

lemmas sim_defs = sim_pq_def sim_connector_def sim_db_def

section \<open>Properties\<close>

text \<open>
  C32: \<open>insert\<close>, \<open>update\<close> and \<open>omit\<close> return 0 exactly when the library reports \<open>PGRES_COMMAND_OK\<close> and
  \<open>-1\<close> otherwise, also for a statement that succeeds and returns rows (\<open>PGRES_TUPLES_OK\<close>). A failed
  command gives its result back to the library; a successful one does not.
\<close>

theorem command_result:
  assumes "f = Gauss_insert pq \<or> f = Gauss_update pq \<or> f = Gauss_omit pq"
    and "f g cmd eb s = Ok (n, eb', g', s')"
  shows "n = (if outcome pq g cmd s = PGRES_COMMAND_OK then 0 else -1) \<and> conn g' = conn g \<and>
    res g' = Some (result_of pq g cmd s) \<and>
    pq_trace s' = pq_trace s @ [PqExec cmd (result_of pq g cmd s)] @
      (if n = 0 then [] else [PqClear (result_of pq g cmd s)])"
proof -
  have run: "Gauss_insert pq g cmd eb s = Ok (n, eb', g', s')" using assms by (auto simp: command_eq)
  show ?thesis using ins.command_cases [OF run] by auto
qed

theorem command_result_witness:
  "\<exists>s'. Gauss_update (sim_pq True) sim_connector [2] None sim_db =
     Ok (-1, None, sim_connector\<lparr>res := Some (Ptr 2)\<rparr>, s') \<and> pq_trace s' = [PqExec [2] (Ptr 2), PqClear (Ptr 2)]"
proof -
  obtain n g' s' where run: "Gauss_update (sim_pq True) sim_connector [2] None sim_db = Ok (n, None, g', s')"
    "g' = sim_connector\<lparr>res := Some (Ptr 2)\<rparr>"
    by (simp add: Gauss_update_def sim_defs pq_defs Let_def)
  from command_result [of "Gauss_update (sim_pq True)" "sim_pq True", OF _ run(1)] run show ?thesis
    by (simp add: outcome_def result_of_def sim_defs pq_defs)
qed

text \<open>
  C31: A failed command with an error buffer appends the connection's message to the text already in
  the buffer. A buffer without room for both is overrun.
\<close>

theorem error_message_appended:
  assumes "f = Gauss_insert pq \<or> f = Gauss_update pq \<or> f = Gauss_omit pq"
    and "outcome pq g cmd s \<noteq> PGRES_COMMAND_OK" and "cstr buf = Ok old" and "0 \<notin> set (message pq g cmd s)"
  shows "if length old + length (message pq g cmd s) < length buf
    then \<exists>buf' g' s'. f g cmd (Some buf) s = Ok (-1, Some buf', g', s') \<and>
      cstr buf' = Ok (old @ message pq g cmd s) \<and> length buf' = length buf
    else f g cmd (Some buf) s = Fault OutOfBounds"
proof -
  have f: "f = Gauss_insert pq" using assms(1) by (auto simp: command_eq)
  show ?thesis
  proof (cases "length old + length (message pq g cmd s) < length buf")
    case True
    from strcat_text [OF assms(3) this assms(4)] ins.failed_buffer [OF assms(2)] True show ?thesis
      by (fastforce simp: f)
  next
    case False
    then show ?thesis
      using ins.failed_overrun [OF assms(2) strcat_no_room [OF assms(3)]] by (simp add: f not_less)
  qed
qed

theorem error_message_appended_witness:
  "\<exists>buf' g' s'. Gauss_omit (sim_pq True) sim_connector [9] (Some [Some 65, Some 0, None, None, None]) sim_db =
     Ok (-1, Some buf', g', s') \<and> cstr buf' = Ok [65, 69, 82, 82]"
  using error_message_appended [of "Gauss_omit (sim_pq True)" "sim_pq True" sim_connector "[9]" sim_db
      "[Some 65, Some 0, None, None, None]" "[65]"]
  by (auto simp: outcome_def message_def sim_defs pq_defs)

text \<open>
  C30: A session leaks: however many commands are made, the number of results obtained and never
  cleared is the number of commands that succeeded.
\<close>

theorem session_leaks_results:
  "\<exists>ns g' s'. session pq qs g s = Ok (ns, g', s') \<and> length ns = length qs \<and>
    pq_balance (pq_trace s') = pq_balance (pq_trace s) + int (length [n \<leftarrow> ns. n = 0])"
  using session_returns [of pq qs g s] session_balance by blast

end
