(* ===== verification/App_Server.thy ===== *)
theory App_Server
  imports Drain InetAddress Util GaussConnector Sim_Kernel
begin

text \<open>
  \<open>apps/server.cpp\<close>: a second, older server in one function: it opens the database connector, sets
  up a listening socket and an epoll instance, and in a loop accepts clients, prints what they send
  and disconnects them. The local variables of \<open>main\<close> that outlive an event are the fields of
  \<open>app\<close>; the array \<open>events\<close> and the structure \<open>ev\<close> are written before each use and are values here.
\<close>

definition BUFFER_LENGTH :: nat where "BUFFER_LENGTH = 1024"
definition MAX_EPOLL_CONNECTION :: nat where "MAX_EPOLL_CONNECTION = 16192"
definition APP_LISTEN_NUM :: int where "APP_LISTEN_NUM = 15"

record 'w app = "'w machine" +
  app_buffer :: "cell list"
  bufferLen :: int
  app_epfd :: int
  serverfd :: int

definition server_addr :: "'w os \<Rightarrow> sockaddr_in" where
  "server_addr os = zero_addr\<lparr>sin_family := AF_INET, sin_addr := os_inet_addr os ''127.0.0.1'',
     sin_port := htons 8080\<rparr>"

text \<open>Up to the loop. The results of \<open>bind\<close> and \<open>listen\<close> are tested, that of \<open>epoll_ctl\<close> is not.\<close>

definition server_setup :: "'w os \<Rightarrow> 'w app \<Rightarrow> 'w app res" where
  "server_setup os s =
     (let (fd, s) = sys_socket os s in
      andThen (errif (fd = -1) ''socket create failed!'') (\<lambda>_.
      let s = s\<lparr>serverfd := fd\<rparr>; (ep, s) = sys_epoll_create os s in
      andThen (errif (ep = -1) ''epoll create failed!'') (\<lambda>_.
      let s = s\<lparr>app_epfd := ep\<rparr>; (b, s) = sys_bind os fd (server_addr os) sizeof_sockaddr_in s in
      andThen (errif (b = -1) ''bind error!'') (\<lambda>_.
      let (l, s) = sys_listen os fd APP_LISTEN_NUM s in
      andThen (errif (l = -1) ''listen error!'') (\<lambda>_.
        Ok (sys_epoll_ctl os ep EPOLL_CTL_ADD fd
              (Some \<lparr>events = EPOLLIN OR EPOLLET, data_fd = fd\<rparr>) s))))))"

definition app_setNonBlocking :: "'w os \<Rightarrow> int \<Rightarrow> ('w, 'z) machine_scheme \<Rightarrow> ('w, 'z) machine_scheme" where
  "app_setNonBlocking os fd s = sys_setfl_nonblock os fd s"

partial_function (option) app_recv_loop :: "'w os \<Rightarrow> int \<Rightarrow> 'w app \<Rightarrow> 'w app res" where
  "app_recv_loop os fd s =
     (if bufferLen s < 0 \<or> int BUFFER_LENGTH < bufferLen s then Fault OutOfBounds
      else
      let ((recv_bytes, bs), s) = sys_recv os fd (nat (int BUFFER_LENGTH - bufferLen s)) s in
      andThen (store_at (app_buffer s) (bufferLen s) bs) (\<lambda>b.
        let s = s\<lparr>app_buffer := b\<rparr> in
        if recv_bytes = 0 \<or> (recv_bytes < 0 \<and> would_block (errno os s)) then Ok s
        else app_recv_loop os fd (s\<lparr>bufferLen := bufferLen s + recv_bytes\<rparr>)))"

definition app_accept :: "'w os \<Rightarrow> 'w app \<Rightarrow> 'w app" where
  "app_accept os s =
     (let ((clientfd, _), s) = sys_accept os (serverfd s) s;
          s = log (OutClient clientfd) s in
      if clientfd = -1 then s
      else sys_epoll_ctl os (app_epfd s) EPOLL_CTL_ADD clientfd
             (Some \<lparr>events = EPOLLIN OR EPOLLET, data_fd = clientfd\<rparr>) (app_setNonBlocking os clientfd s))"

definition app_receive :: "'w os \<Rightarrow> int \<Rightarrow> 'w app \<Rightarrow> 'w app res" where
  "app_receive os fd s =
     andThen (app_recv_loop os fd (s\<lparr>app_buffer := replicate BUFFER_LENGTH (Some 0), bufferLen := 0\<rparr>)) (\<lambda>s.
     andThen (cstr (app_buffer s)) (\<lambda>txt.
       let s = log (OutRecv txt) s; s = sys_close os fd s in
       Ok (sys_epoll_ctl os (app_epfd s) EPOLL_CTL_DEL fd None s)))"

definition app_event :: "'w os \<Rightarrow> epoll_event \<Rightarrow> 'w app \<Rightarrow> 'w app res" where
  "app_event os e s =
     (let fd = data_fd e in
      if fd = serverfd s then Ok (app_accept os s)
      else if events e = EPOLLIN then app_receive os fd s
      else Ok s)"

fun app_events :: "'w os \<Rightarrow> epoll_event list \<Rightarrow> 'w app \<Rightarrow> 'w app res" where
  "app_events os [] s = Ok s"
| "app_events os (e # es) s = andThen (app_event os e s) (app_events os es)"

definition app_round :: "'w os \<Rightarrow> 'w app \<Rightarrow> 'w app res" where
  "app_round os s =
     (let ((nready, evs), s) = sys_epoll_wait os (app_epfd s) MAX_EPOLL_CONNECTION (-1) s
      in if int (length evs) < nready then Fault Indeterminate
         else app_events os (take (nat nready) evs) s)"

fun app_rounds :: "'w os \<Rightarrow> nat \<Rightarrow> 'w app \<Rightarrow> 'w app res" where
  "app_rounds os 0 s = Ok s"
| "app_rounds os (Suc n) s = andThen (app_round os s) (app_rounds os n)"

text \<open>\<open>main\<close> up to the end of its \<open>n\<close>-th round.\<close>

definition app_server :: "'d pq \<Rightarrow> 'w os \<Rightarrow> nat \<Rightarrow> 'd db \<Rightarrow> 'w app \<Rightarrow> 'w app res" where
  "app_server pq os n d s =
     andThen (GaussConnector_ctor pq d) (\<lambda>_.
     andThen (server_setup os (s\<lparr>bufferLen := 0\<rparr>)) (app_rounds os n))"

definition fresh_app :: "'w \<Rightarrow> 'w app" where
  "fresh_app w = \<lparr>kernel = w, trace = [], app_buffer = replicate BUFFER_LENGTH None, bufferLen = 0,
     app_epfd = -1, serverfd = -1\<rparr>"

section \<open>The receive loop\<close>

definition app_put :: "int \<Rightarrow> cell list \<Rightarrow> 'w app \<Rightarrow> 'w app" where
  "app_put n b s = s\<lparr>app_buffer := b, bufferLen := n\<rparr>"

definition app_live :: "'w app \<Rightarrow> bool" where
  "app_live s \<longleftrightarrow> length (app_buffer s) = BUFFER_LENGTH"

lemma app_frame [frame_simps, simp]:
  "app_buffer (log e s) = app_buffer s" "bufferLen (log e s) = bufferLen s"
  "app_epfd (log e s) = app_epfd s" "serverfd (log e s) = serverfd s"
  "app_buffer (sys_close os f s) = app_buffer s" "bufferLen (sys_close os f s) = bufferLen s"
  "app_epfd (sys_close os f s) = app_epfd s" "serverfd (sys_close os f s) = serverfd s"
  "app_buffer (sys_epoll_ctl os ep op f ev s) = app_buffer s" "serverfd (sys_epoll_ctl os ep op f ev s) = serverfd s"
  "app_buffer (app_setNonBlocking os f s) = app_buffer s" "serverfd (app_setNonBlocking os f s) = serverfd s"
  "app_epfd (app_setNonBlocking os f s) = app_epfd s"
  by (simp_all add: sys_defs log_def app_setNonBlocking_def Let_def split: prod.splits)

lemma app_recv_frame:
  assumes "sys_recv os f k s = (ans, s1)"
  shows "app_buffer s1 = app_buffer s" "bufferLen s1 = bufferLen s" "app_epfd s1 = app_epfd s"
    "serverfd s1 = serverfd s" "os_recv os f k (kernel s) = (ans, kernel s1)"
    "trace s1 = trace s @ [SysRecv f k (fst ans) (snd ans)]"
  using assms by (auto simp: sys_recv_def log_def split: prod.splits)

lemma app_recv_round:
  "(if bufferLen s < 0 \<or> int BUFFER_LENGTH < bufferLen s then Fault OutOfBounds
    else
    let ((recv_bytes, bs), s) = sys_recv os fd (nat (int BUFFER_LENGTH - bufferLen s)) s in
    andThen (store_at (app_buffer s) (bufferLen s) bs) (\<lambda>b.
      let s = s\<lparr>app_buffer := b\<rparr> in
      if recv_bytes = 0 \<or> (recv_bytes < 0 \<and> would_block (errno os s)) then Ok s
      else g (s\<lparr>bufferLen := bufferLen s + recv_bytes\<rparr>))) =
   drain_body (sys_recv os fd) (\<lambda>s. os_errno os (kernel s)) BUFFER_LENGTH bufferLen app_buffer app_put g s"
proof -
  obtain n bs s1 where rc: "sys_recv os fd (nat (int BUFFER_LENGTH - bufferLen s)) s = ((n, bs), s1)"
    by (metis surj_pair)
  have [simp]: "s1\<lparr>app_buffer := b, bufferLen := bufferLen s\<rparr> = s1\<lparr>app_buffer := b\<rparr>" for b
    using app_recv_frame(2) [OF rc] by simp
  show ?thesis
    using app_recv_frame(1,2) [OF rc]
    by (cases rule: store_at_cases [of "app_buffer s" "bufferLen s" bs])
      (auto simp: drain_body_def rc app_put_def errno_def)
qed

interpretation app: drain_loop os f BUFFER_LENGTH "sys_recv os f" kernel bufferLen app_buffer app_put app_live trace "app_recv_loop os f"
  for os f
proof (unfold_locales, goal_cases)
  case (1 s)
  show ?case by (subst app_recv_loop.simps) (rule app_recv_round)
next
  case (2 s r P)
  have "app_live s \<longrightarrow> P s r"
  proof (rule app_recv_loop.raw_induct [where P = "\<lambda>os' f' s r. os' = os \<longrightarrow> f' = f \<longrightarrow> app_live s \<longrightarrow> P s r",
        OF _ 2(1), THEN mp, THEN mp, OF _ refl refl], intro impI, goal_cases)
    case (1 g os' f' s r)
    have IH: "P s r" if "app_live s" "g os f s = Some r" for s r
      using 1(1) that by blast
    show ?case
    proof (rule 2(3) [of "g os f"])
      show "app_live s" by (rule 1(5))
      show "drain_body (sys_recv os f) (\<lambda>s. os_errno os (kernel s)) BUFFER_LENGTH
          bufferLen app_buffer app_put (g os f) s = Some r"
        using 1(2) unfolding 1(3,4) app_recv_round .
    qed (rule IH)
  qed
  then show ?case using 2(2) by blast
next
  case (4 s k ans s1)
  then show ?case by (simp add: app_live_def app_recv_frame(1) [OF 4(2)])
qed (auto simp: app_live_def app_put_def dest: app_recv_frame(5,6))

section \<open>What the receiving branch does\<close>

definition app_loop_frame :: "'w watch \<Rightarrow> int \<Rightarrow> 'w app \<Rightarrow> 'w app \<Rightarrow> bool" where
  "app_loop_frame watch fd s s' \<longleftrightarrow> watch (kernel s') = watch (kernel s) \<and> None \<notin> set (app_buffer s') \<and>
     serverfd s' = serverfd s \<and> app_epfd s' = app_epfd s \<and>
     (\<exists>calls. trace s' = trace s @ calls \<and> only_recv fd calls)"

lemma app_frame_step:
  assumes K: "epoll_contract os watch" and fr: "app_loop_frame watch fd s s1"
    and rc: "sys_recv os fd k s1 = (ans, s2)" and st: "store_at (app_buffer s1) off bs = Ok b"
  shows "app_loop_frame watch fd s (app_put m b s2)"
proof -
  have "watch (kernel s2) = watch (kernel s1)" by (rule watch_frame(1) [OF K rc])
  moreover obtain calls where "trace s1 = trace s @ calls" "only_recv fd calls"
    using fr by (auto simp: app_loop_frame_def)
  then have "trace s2 = trace s @ (calls @ [SysRecv fd k (fst ans) (snd ans)])"
    "only_recv fd (calls @ [SysRecv fd k (fst ans) (snd ans)])"
    by (auto simp: app_recv_frame(6) [OF rc] only_recv_def)
  ultimately show ?thesis
    using fr store_at_defined [OF st] app_recv_frame(3,4) [OF rc]
    unfolding app_loop_frame_def app_put_def by auto
qed

abbreviation cleared :: "'w app \<Rightarrow> 'w app" where
  "cleared s \<equiv> s\<lparr>app_buffer := replicate BUFFER_LENGTH (Some 0), bufferLen := 0\<rparr>"

lemma app_recv_loop_frame:
  assumes K: "epoll_contract os watch"
  shows "within {OutOfBounds} (\<lambda>s'. app_live s' \<and> app_loop_frame watch fd s s') (app_recv_loop os fd (cleared s))"
proof (rule app.loop_rule [where I = "app_loop_frame watch fd s"])
  show "app_live (cleared s)" by (simp add: app_live_def)
  show "app_loop_frame watch fd s (cleared s)" by (simp add: app_loop_frame_def only_recv_def)
qed (rule app_frame_step [OF K], assumption+)+


definition app_served :: "'w watch \<Rightarrow> int \<Rightarrow> byte list \<Rightarrow> 'w app \<Rightarrow> 'w app \<Rightarrow> bool" where
  "app_served watch fd txt s s' \<longleftrightarrow> app_live s' \<and> serverfd s' = serverfd s \<and>
     watch (kernel s') = (watch (kernel s))(fd := None) \<and>
     (\<exists>calls. trace s' = trace s @ calls @ [OutRecv txt, SysClose fd, SysEpollCtl EPOLL_CTL_DEL fd None] \<and>
        only_recv fd calls)"

lemma app_receive_tail:
  assumes K: "epoll_contract os watch" and "app_live s1" and fr: "app_loop_frame watch fd s s1"
    and "cstr (app_buffer s1) = Ok txt"
  shows "holds (app_served watch fd txt s) (andThen (cstr (app_buffer s1)) (\<lambda>txt.
       let s = log (OutRecv txt) s1; s = sys_close os fd s in
       Ok (sys_epoll_ctl os (app_epfd s) EPOLL_CTL_DEL fd None s)))"
proof -
  define s2 where "s2 = sys_close os fd (log (OutRecv txt) s1)"
  have w2: "watch (kernel s2) = (watch (kernel s))(fd := None)"
    using fr watch_frame(4) [OF K, of fd "log (OutRecv txt) s1"] by (simp add: s2_def app_loop_frame_def)
  have "watch (kernel (sys_epoll_ctl os (app_epfd s1) EPOLL_CTL_DEL fd None s2)) = (watch (kernel s))(fd := None)"
    using watch_ctl [OF K, of "app_epfd s1" EPOLL_CTL_DEL fd None s2] by (auto simp: w2)
  then show ?thesis
    using assms by (auto simp: app_served_def app_loop_frame_def app_live_def s2_def Let_def)
qed


lemma app_receive_message:
  assumes K: "epoll_contract os watch" and cs: "delivers os fd BUFFER_LENGTH 0 cs (kernel s)"
    and short: "length (concat cs) < BUFFER_LENGTH"
  shows "holds (app_served watch fd (takeWhile (\<lambda>b. b \<noteq> 0) (concat cs)) s) (app_receive os fd s)"
  unfolding app_receive_def
proof (rule holds_andThen)
  have "holds (\<lambda>s'. app_live s' \<and> bufferLen s' = int (0 + length (concat cs)) \<and>
      0 + length (concat cs) \<le> BUFFER_LENGTH \<and>
      app_buffer s' = take 0 (app_buffer (cleared s)) @ map Some (concat cs) @
        drop (0 + length (concat cs)) (app_buffer (cleared s))) (app_recv_loop os fd (cleared s))"
    by (rule app.loop_delivers) (use cs in \<open>simp_all add: app_live_def\<close>)
  from holds_within_conj [OF this app_recv_loop_frame [OF K]]
  show "holds (\<lambda>s'. app_live s' \<and> app_loop_frame watch fd s s' \<and>
      app_buffer s' = map Some (concat cs) @ replicate (BUFFER_LENGTH - length (concat cs)) (Some 0))
    (app_recv_loop os fd (cleared s))"
    by (auto simp: holds_iff)
next
  fix s1
  assume s1: "app_live s1 \<and> app_loop_frame watch fd s s1 \<and>
    app_buffer s1 = map Some (concat cs) @ replicate (BUFFER_LENGTH - length (concat cs)) (Some 0)"
  obtain k where "BUFFER_LENGTH - length (concat cs) = Suc k" using short by (metis Suc_diff_Suc)
  then have "cstr (app_buffer s1) = Ok (takeWhile (\<lambda>b. b \<noteq> 0) (concat cs))"
    using s1 by (simp add: cstr_takeWhile)
  then show "holds (app_served watch fd (takeWhile (\<lambda>b. b \<noteq> 0) (concat cs)) s)
    (andThen (cstr (app_buffer s1)) (\<lambda>txt.
       let s = log (OutRecv txt) s1; s = sys_close os fd s in
       Ok (sys_epoll_ctl os (app_epfd s) EPOLL_CTL_DEL fd None s)))"
    using app_receive_tail [OF K] s1 by blast
qed

lemma app_receive_full:
  assumes cs: "delivers os fd BUFFER_LENGTH 0 cs (kernel s)"
    and full: "length (concat cs) = BUFFER_LENGTH" "0 \<notin> set (concat cs)"
  shows "app_receive os fd s = Fault OutOfBounds"
proof -
  have "holds (\<lambda>s'. app_live s' \<and> bufferLen s' = int (0 + length (concat cs)) \<and>
      0 + length (concat cs) \<le> BUFFER_LENGTH \<and>
      app_buffer s' = take 0 (app_buffer (cleared s)) @ map Some (concat cs) @
        drop (0 + length (concat cs)) (app_buffer (cleared s))) (app_recv_loop os fd (cleared s))"
    by (rule app.loop_delivers) (use cs in \<open>simp_all add: app_live_def\<close>)
  then obtain s1 where "app_recv_loop os fd (cleared s) = Ok s1" "app_buffer s1 = map Some (concat cs)"
    using full(1) by (auto simp: holds_iff)
  moreover have "cstr (map Some (concat cs)) = Fault OutOfBounds"
    using full(2) by (intro cstr_no_NUL) auto
  ultimately show ?thesis by (simp add: app_receive_def)
qed

text \<open>The receiving branch by the replies of \<open>recv\<close>.\<close>

lemma app_receive_replies:
  assumes "replies os fd BUFFER_LENGTH 0 rs (kernel s)"
  shows "burst_text BUFFER_LENGTH rs = Fault OutOfBounds \<and> app_receive os fd s = Fault OutOfBounds \<or>
    (\<exists>str s' calls. burst_text BUFFER_LENGTH rs = Ok str \<and> app_receive os fd s = Ok s' \<and> only_recv fd calls \<and>
       trace s' = trace s @ calls @ [OutRecv str, SysClose fd, SysEpollCtl EPOLL_CTL_DEL fd None])"
proof -
  let ?z = "replicate BUFFER_LENGTH (Some 0)"
  note loop = app.loop_replies [where s = "cleared s" and os = os and f = fd and off = 0 and rs = rs]
  have live: "app_live (cleared s)" by (simp add: app_live_def)
  consider (fault) e where "played 0 ?z rs = Fault e" | (ok) k b where "played 0 ?z rs = Ok (k, b)"
    by (metis played_returns not_None_eq obj_sumE surj_pair)
  then show ?thesis
  proof cases
    case (fault e)
    then have run: "app_recv_loop os fd (cleared s) = Fault e" using loop assms live by simp
    then have "e = OutOfBounds" using app.loop_hist [OF live, where os = os and f = fd] by simp
    then show ?thesis using fault run by (simp add: burst_text_def app_receive_def)
  next
    case (ok k b)
    then have "holds (\<lambda>s'. app_live s' \<and> bufferLen s' = int k \<and> k \<le> BUFFER_LENGTH \<and> app_buffer s' = b)
      (app_recv_loop os fd (cleared s))" using loop assms live by simp
    from holds_within_conj [OF this app.loop_hist [OF live]] obtain s1 calls where
      s1: "app_recv_loop os fd (cleared s) = Ok s1" "app_buffer s1 = b" "trace s1 = trace s @ calls" "only_recv fd calls"
      by (auto simp: holds_iff)
    have "None \<notin> set b" using ok played_defined by fastforce
    then consider str where "cstr b = Ok str" | "cstr b = Fault OutOfBounds"
      using cstr_fault cstr_returns by (metis not_None_eq obj_sumE)
    then show ?thesis using ok s1 by cases (auto simp: burst_text_def app_receive_def Let_def)
  qed
qed

lemma app_receive_has_replies:
  assumes "recv_contract os" and "app_receive os fd s \<noteq> None"
  shows "\<exists>rs. replies os fd BUFFER_LENGTH 0 rs (kernel s)"
proof -
  obtain r where run: "app_recv_loop os fd (cleared s) = Some r"
    using assms(2) by (auto simp: app_receive_def andThen_eq_None)
  have "app_live (cleared s)" by (simp add: app_live_def)
  from app.loop_has_replies [OF assms(1) run this, of 0] show ?thesis by simp
qed

section \<open>The interest list\<close>









section \<open>The history of the older server\<close>







section \<open>Properties\<close>

text \<open>A client on descriptor 4 of a server that listens on 3.\<close>

definition app_one :: "answer list \<Rightarrow> sim app" where
  "app_one answers = (fresh_app (sim0\<lparr>sim_in := (\<lambda>_. answers),
     sim_watch := [4 \<mapsto> \<lparr>events = EPOLLIN OR EPOLLET, data_fd = 4\<rparr>]\<rparr>))\<lparr>serverfd := 3\<rparr>"

lemma app_one_sel [simp]:
  "serverfd (app_one cs) = 3" "sim_in (kernel (app_one cs)) = (\<lambda>_. cs)" "trace (app_one cs) = []"
  by (simp_all add: app_one_def fresh_app_def)



text \<open>
  A client's message of fewer than 1024 bytes, in whatever chunks it comes, is printed up to its
  first NUL; then the descriptor is closed and deregistered, in this order, and is no longer watched.
\<close>

theorem app_serves_client:
  assumes "epoll_contract os watch" and "data_fd e = fd" and "events e = EPOLLIN" and "fd \<noteq> serverfd s"
    and "delivers os fd BUFFER_LENGTH 0 cs (kernel s)" and "length (concat cs) < BUFFER_LENGTH"
  shows "\<exists>s' calls. app_event os e s = Ok s' \<and> only_recv fd calls \<and>
    trace s' = trace s @ calls @ [OutRecv (takeWhile (\<lambda>b. b \<noteq> 0) (concat cs)), SysClose fd,
      SysEpollCtl EPOLL_CTL_DEL fd None] \<and>
    watch (kernel s') = (watch (kernel s))(fd := None)"
  using app_receive_message [OF assms(1,5,6)] assms(2-4)
  by (auto simp: app_event_def app_served_def holds_iff)

theorem app_serves_client_witness:
  "\<exists>s'. app_event (sim_os True) \<lparr>events = EPOLLIN, data_fd = 4\<rparr> (app_one [Chunk [72], Chunk [105, 0, 33]]) = Ok s' \<and>
     OutRecv [72, 105] \<in> set (trace s') \<and> sim_watch (kernel s') 4 = None"
  using app_serves_client [OF sim_contract, of "\<lparr>events = EPOLLIN, data_fd = 4\<rparr>" 4
      "app_one [Chunk [72], Chunk [105, 0, 33]]" True "[[72], [105, 0, 33]]"]
  by (auto simp: BUFFER_LENGTH_def would_block_def)

text \<open>
  C39: The receiving branch, completely: on every error of \<open>recv\<close> too. The replies of \<open>recv\<close> decide
  what it does: if they leave the array, or leave it full and without a NUL, the branch leaves the array;
  otherwise it prints the text they leave, closes the descriptor and deregisters it. And every
  run of it that ends is one of these.
\<close>

theorem app_receive_specified:
  assumes "recv_contract os"
  shows "(\<forall>rs. replies os fd BUFFER_LENGTH 0 rs (kernel s) \<longrightarrow>
      burst_text BUFFER_LENGTH rs = Fault OutOfBounds \<and> app_receive os fd s = Fault OutOfBounds \<or>
      (\<exists>str s' calls. burst_text BUFFER_LENGTH rs = Ok str \<and> app_receive os fd s = Ok s' \<and> only_recv fd calls \<and>
         trace s' = trace s @ calls @ [OutRecv str, SysClose fd, SysEpollCtl EPOLL_CTL_DEL fd None])) \<and>
    (app_receive os fd s \<noteq> None \<longrightarrow> (\<exists>rs. replies os fd BUFFER_LENGTH 0 rs (kernel s)))"
  using app_receive_replies app_receive_has_replies [OF assms] by blast

theorem app_receive_specified_witness:
  "\<exists>s'. app_receive (sim_os True) 4 (app_one [Chunk [72, 105], Failure 104, Chunk [33]]) = Ok s' \<and>
     OutRecv [72, 33] \<in> set (trace s')"
proof -
  let ?s = "app_one [Chunk [72, 105], Failure 104, Chunk [33]]" and ?rs = "[Got [72, 105], Failed, Got [33]]"
  have "replies (sim_os True) 4 BUFFER_LENGTH 0 ?rs (kernel ?s)"
    by (simp add: BUFFER_LENGTH_def would_block_def EAGAIN_def EWOULDBLOCK_def)
  moreover have "burst_text BUFFER_LENGTH ?rs = Ok [72, 33]"
    by (simp add: burst_text_def BUFFER_LENGTH_def)
  ultimately show ?thesis
    using app_receive_specified [OF sim_recv_contract [of True], of 4 ?s] by fastforce
qed

text \<open>
  The receive loop has no error exit and the buffer no room for a terminator: a hard error of
  the first \<open>recv\<close>, and a message of exactly 1024 bytes without a NUL, leave the array.
\<close>

theorem app_receive_overruns:
  assumes "(\<exists>w. os_recv os fd BUFFER_LENGTH (kernel s) = ((-1, []), w) \<and> \<not> would_block (os_errno os w)) \<or>
    (\<exists>cs. delivers os fd BUFFER_LENGTH 0 cs (kernel s) \<and> length (concat cs) = BUFFER_LENGTH \<and> 0 \<notin> set (concat cs))"
  shows "app_receive os fd s = Fault OutOfBounds"
  using assms
proof
  assume "\<exists>w. os_recv os fd BUFFER_LENGTH (kernel s) = ((-1, []), w) \<and> \<not> would_block (os_errno os w)"
  then obtain s1 where "sys_recv os fd BUFFER_LENGTH (cleared s) = ((-1, []), s1)" "\<not> would_block (os_errno os (kernel s1))"
    by (auto simp: sys_recv_def)
  then have "app_recv_loop os fd (cleared s) = Fault OutOfBounds"
    by (intro app.loop_hard_error) (auto simp: app_live_def)
  then show ?thesis by (simp add: app_receive_def)
next
  assume "\<exists>cs. delivers os fd BUFFER_LENGTH 0 cs (kernel s) \<and> length (concat cs) = BUFFER_LENGTH \<and> 0 \<notin> set (concat cs)"
  then show ?thesis using app_receive_full by blast
qed

theorem app_receive_overruns_witness:
  "app_receive (sim_os True) 4 (app_one [Failure 104]) = Fault OutOfBounds"
  by (rule app_receive_overruns, rule disjI1)
    (simp add: BUFFER_LENGTH_def would_block_def EAGAIN_def EWOULDBLOCK_def)



text \<open>
  Events are compared with \<open>==\<close>, not tested bit by bit: a client that is reported readable and
  hung up at the same time is not served; nothing is read, closed or deregistered.
\<close>

theorem app_ignores_combined_events:
  assumes "data_fd e \<noteq> serverfd s" and "has_flag (events e) EPOLLIN" and "has_flag (events e) EPOLLHUP"
  shows "app_event os e s = Ok s"
proof -
  have "events e \<noteq> EPOLLIN" using assms(3) by (auto simp: has_flag_def flag_defs)
  then show ?thesis using assms(1) by (simp add: app_event_def)
qed

theorem app_ignores_combined_events_witness:
  "app_event (sim_os True) \<lparr>events = EPOLLIN OR EPOLLHUP, data_fd = 4\<rparr> (app_one []) = Ok (app_one [])"
  by (rule app_ignores_combined_events) (simp_all add: has_flag_def flag_defs)

text \<open>
  Without its database the server serves nobody: while the library does not report a working
  connection, the process ends before a socket is made.
\<close>

theorem app_needs_database:
  assumes "pq_status pq (fst (pq_connectdb pq conninfo_text (lib d))) (snd (pq_connectdb pq conninfo_text (lib d))) \<noteq> CONNECTION_OK"
  shows "app_server pq os n d s = Fault (ProcessExit ''Connection to database failed:'')"
  using assms by (auto simp: app_server_def GaussConnector_ctor_def PQconnectdb_def split: prod.splits)

theorem app_needs_database_witness:
  "app_server (sim_pq False) (sim_os True) 5 sim_db (fresh_app sim0) = Fault (ProcessExit ''Connection to database failed:'')"
  by (rule app_needs_database) (simp add: sim_pq_def)

end
