(* ===== verification/App_Client.thy ===== *)
theory App_Client
  imports Drain InetAddress Util Sim_Kernel
begin

text \<open>
  \<open>apps/client.cpp\<close>: the client. It connects, and in a loop reads a line from the standard input,
  sends it, and prints what the server answers. The standard input is a list of bytes, the ones not
  read yet. \<open>errif\<close> is this program's own copy, equal to that of \<open>Util\<close>.
\<close>

definition CLIENT_BUFFER_LENGTH :: nat where "CLIENT_BUFFER_LENGTH = 1024"

record 'w client = "'w machine" +
  stdin :: "byte list"
  cli_buffer :: "cell list"
  cli_rlen :: int
  clientfd :: int

definition client_errif :: "bool \<Rightarrow> string \<Rightarrow> unit res" where
  "client_errif condition msg = (if condition then Fault (ProcessExit msg) else Ok ())"



text \<open>Defined in the program, but its only call is commented out.\<close>

definition client_setNonBlocking :: "'w os \<Rightarrow> int \<Rightarrow> ('w, 'z) machine_scheme \<Rightarrow> ('w, 'z) machine_scheme" where
  "client_setNonBlocking os fd s = sys_setfl_nonblock os fd s"

text \<open>
  \<open>fgets(buffer, n, stdin)\<close> of the C library: at most \<open>n - 1\<close> bytes, up to and including the first
  newline, then a NUL; at the end of the input it reads nothing and leaves the array alone.
\<close>

definition newline :: byte where "newline = 10"

fun get_line :: "nat \<Rightarrow> byte list \<Rightarrow> byte list \<times> byte list" where
  "get_line 0 inp = ([], inp)"
| "get_line (Suc n) [] = ([], [])"
| "get_line (Suc n) (b # inp) =
     (if b = newline then ([b], inp)
      else let (l, rest) = get_line n inp in (b # l, rest))"

definition fgets :: "nat \<Rightarrow> 'w client \<Rightarrow> 'w client res" where
  "fgets n s =
     (if stdin s = [] then Ok s
      else let (l, rest) = get_line (n - 1) (stdin s)
           in andThen (store_at (cli_buffer s) 0 (l @ [0])) (\<lambda>b.
                Ok (s\<lparr>stdin := rest, cli_buffer := b\<rparr>)))"

partial_function (option) client_recv_loop :: "'w os \<Rightarrow> int \<Rightarrow> 'w client \<Rightarrow> 'w client res" where
  "client_recv_loop os fd s =
     (if cli_rlen s < 0 \<or> int CLIENT_BUFFER_LENGTH < cli_rlen s then Fault OutOfBounds
      else
      let ((read_bytes, bs), s) = sys_recv os fd (nat (int CLIENT_BUFFER_LENGTH - cli_rlen s)) s in
      andThen (store_at (cli_buffer s) (cli_rlen s) bs) (\<lambda>b.
        let s = s\<lparr>cli_buffer := b\<rparr> in
        if read_bytes = 0 \<or> (read_bytes < 0 \<and> would_block (errno os s)) then Ok s
        else client_recv_loop os fd (s\<lparr>cli_rlen := cli_rlen s + read_bytes\<rparr>)))"

definition client_turn :: "'w os \<Rightarrow> 'w client \<Rightarrow> 'w client res" where
  "client_turn os s =
     andThen (fgets CLIENT_BUFFER_LENGTH (s\<lparr>cli_rlen := 0\<rparr>)) (\<lambda>s.
     andThen (cstr (cli_buffer s)) (\<lambda>line.
     let s = sys_send os (clientfd s) (map Some line) s;
         s = s\<lparr>cli_buffer := replicate CLIENT_BUFFER_LENGTH (Some 0)\<rparr> in
     andThen (client_recv_loop os (clientfd s) s) (\<lambda>s.
     andThen (cstr (cli_buffer s)) (\<lambda>answer. Ok (log (OutRecv answer) s)))))"



definition fresh_client :: "byte list \<Rightarrow> 'w \<Rightarrow> 'w client" where
  "fresh_client inp w = \<lparr>kernel = w, trace = [], stdin = inp,
     cli_buffer = replicate CLIENT_BUFFER_LENGTH None, cli_rlen = 0, clientfd = -1\<rparr>"

lemma client_errif_eq: "client_errif = errif"
  by (intro ext) (simp add: client_errif_def errif_def)

section \<open>The receive loop\<close>

definition cli_put :: "int \<Rightarrow> cell list \<Rightarrow> 'w client \<Rightarrow> 'w client" where
  "cli_put n b s = s\<lparr>cli_buffer := b, cli_rlen := n\<rparr>"

definition cli_live :: "'w client \<Rightarrow> bool" where
  "cli_live s \<longleftrightarrow> length (cli_buffer s) = CLIENT_BUFFER_LENGTH"

lemma cli_frame [frame_simps, simp]:
  "stdin (log e s) = stdin s" "cli_buffer (log e s) = cli_buffer s" "clientfd (log e s) = clientfd s"
  "stdin (sys_send os f cs s) = stdin s" "cli_buffer (sys_send os f cs s) = cli_buffer s"
  "clientfd (sys_send os f cs s) = clientfd s" "cli_rlen (sys_send os f cs s) = cli_rlen s"
  by (simp_all add: sys_defs log_def Let_def split: prod.splits)

lemma cli_recv_frame:
  assumes "sys_recv os f k s = (ans, s1)"
  shows "cli_buffer s1 = cli_buffer s" "cli_rlen s1 = cli_rlen s" "clientfd s1 = clientfd s"
    "stdin s1 = stdin s" "os_recv os f k (kernel s) = (ans, kernel s1)"
    "trace s1 = trace s @ [SysRecv f k (fst ans) (snd ans)]"
  using assms by (auto simp: sys_recv_def log_def split: prod.splits)

lemma cli_recv_round:
  "(if cli_rlen s < 0 \<or> int CLIENT_BUFFER_LENGTH < cli_rlen s then Fault OutOfBounds
    else
    let ((read_bytes, bs), s) = sys_recv os fd (nat (int CLIENT_BUFFER_LENGTH - cli_rlen s)) s in
    andThen (store_at (cli_buffer s) (cli_rlen s) bs) (\<lambda>b.
      let s = s\<lparr>cli_buffer := b\<rparr> in
      if read_bytes = 0 \<or> (read_bytes < 0 \<and> would_block (errno os s)) then Ok s
      else g (s\<lparr>cli_rlen := cli_rlen s + read_bytes\<rparr>))) =
   drain_body (sys_recv os fd) (\<lambda>s. os_errno os (kernel s)) CLIENT_BUFFER_LENGTH cli_rlen cli_buffer cli_put g s"
proof -
  obtain n bs s1 where rc: "sys_recv os fd (nat (int CLIENT_BUFFER_LENGTH - cli_rlen s)) s = ((n, bs), s1)"
    by (metis surj_pair)
  have [simp]: "s1\<lparr>cli_buffer := b, cli_rlen := cli_rlen s\<rparr> = s1\<lparr>cli_buffer := b\<rparr>" for b
    using cli_recv_frame(2) [OF rc] by simp
  show ?thesis
    using cli_recv_frame(1,2) [OF rc]
    by (cases rule: store_at_cases [of "cli_buffer s" "cli_rlen s" bs])
      (auto simp: drain_body_def rc cli_put_def errno_def)
qed

interpretation cli: drain_loop os f CLIENT_BUFFER_LENGTH "sys_recv os f" kernel cli_rlen cli_buffer cli_put cli_live trace "client_recv_loop os f"
  for os f
proof (unfold_locales, goal_cases)
  case (1 s)
  show ?case by (subst client_recv_loop.simps) (rule cli_recv_round)
next
  case (2 s r P)
  have "cli_live s \<longrightarrow> P s r"
  proof (rule client_recv_loop.raw_induct [where P = "\<lambda>os' f' s r. os' = os \<longrightarrow> f' = f \<longrightarrow> cli_live s \<longrightarrow> P s r",
        OF _ 2(1), THEN mp, THEN mp, OF _ refl refl], intro impI, goal_cases)
    case (1 g os' f' s r)
    have IH: "P s r" if "cli_live s" "g os f s = Some r" for s r
      using 1(1) that by blast
    show ?case
    proof (rule 2(3) [of "g os f"])
      show "cli_live s" by (rule 1(5))
      show "drain_body (sys_recv os f) (\<lambda>s. os_errno os (kernel s)) CLIENT_BUFFER_LENGTH
          cli_rlen cli_buffer cli_put (g os f) s = Some r"
        using 1(2) unfolding 1(3,4) cli_recv_round .
    qed (rule IH)
  qed
  then show ?case using 2(2) by blast
next
  case (4 s k ans s1)
  then show ?case by (simp add: cli_live_def cli_recv_frame(1) [OF 4(2)])
qed (auto simp: cli_live_def cli_put_def dest: cli_recv_frame(5,6))

section \<open>Reading lines\<close>

lemma get_line_numeral [simp]:
  "get_line (numeral k) [] = ([], [])"
  "get_line (numeral k) (b # inp) = (if b = newline then ([b], inp)
     else let (l, rest) = get_line (pred_numeral k) inp in (b # l, rest))"
  by (simp_all add: numeral_eq_Suc)

lemma get_line_append: "get_line n inp = (l, rest) \<Longrightarrow> l @ rest = inp"
  by (induction n inp arbitrary: l rule: get_line.induct) (auto split: if_splits prod.splits)

lemma get_line_length: "get_line n inp = (l, rest) \<Longrightarrow> length l \<le> n"
  by (induction n inp arbitrary: l rule: get_line.induct) (auto split: if_splits prod.splits)

lemma get_line_progress: "get_line (Suc n) (b # inp) = (l, rest) \<Longrightarrow> length rest \<le> length inp"
proof -
  assume g: "get_line (Suc n) (b # inp) = (l, rest)"
  then have "l \<noteq> []" by (auto split: if_splits prod.splits)
  then show ?thesis using get_line_append [OF g] by (cases l) auto
qed

text \<open>A line ends at its first newline; without one it is as much as fits.\<close>

lemma get_line_newline:
  "get_line n inp = (l, rest) \<Longrightarrow> newline \<notin> set (butlast l)"
proof (induction n inp arbitrary: l rule: get_line.induct)
  case (3 n b inp)
  show ?case
  proof (cases "b = newline")
    case False
    obtain l' where l': "get_line n inp = (l', rest)" "l = b # l'"
      using 3(2) False by (auto split: prod.splits)
    then show ?thesis using 3(1) [OF False l'(1)] False by (cases l') auto
  qed (use 3(2) in auto)
qed auto

lemma get_line_stop:
  "get_line n inp = (l, rest) \<Longrightarrow> rest \<noteq> [] \<Longrightarrow> length l = n \<or> l \<noteq> [] \<and> last l = newline"
proof (induction n inp arbitrary: l rule: get_line.induct)
  case (3 n b inp)
  show ?case
  proof (cases "b = newline")
    case False
    obtain l' where l': "get_line n inp = (l', rest)" "l = b # l'"
      using 3(2) False by (auto split: prod.splits)
    then show ?thesis using 3(1) [OF False l'(1) 3(3)] by auto
  qed (use 3(2) in auto)
qed auto

text \<open>The lines a client reads, in turn.\<close>

function lines :: "nat \<Rightarrow> byte list \<Rightarrow> byte list list" where
  "lines n inp = (if n = 0 \<or> inp = [] then []
     else let (l, rest) = get_line n inp in l # lines n rest)"
  by auto

termination lines
proof (relation "measure (\<lambda>(n, inp). length inp)")
  fix n inp x l rest
  assume ne: "\<not> (n = (0::nat) \<or> inp = [])" and "x = get_line n inp" and "(l, rest) = x"
  then have g: "get_line n inp = (l, rest)" by simp
  obtain m b inp' where "n = Suc m" "inp = b # inp'" using ne by (cases n; cases inp) auto
  then show "((n, rest), n, inp) \<in> measure (\<lambda>(n, inp). length inp)"
    using get_line_progress [of m b inp' l rest] g by simp
qed simp

declare lines.simps [simp del]

lemma lines_concat: "0 < n \<Longrightarrow> concat (lines n inp) = inp"
proof (induction n inp rule: lines.induct)
  case (1 n inp)
  show ?case
  proof (cases "inp = []")
    case False
    obtain l rest where g: "get_line n inp = (l, rest)" by (metis surj_pair)
    then have "concat (lines n rest) = rest" using 1 False by auto
    then show ?thesis using False 1(2) get_line_append [OF g] by (subst lines.simps) (simp add: g)
  qed (simp add: lines.simps)
qed

section \<open>One turn\<close>

text \<open>The receive loop adds \<open>recv\<close> calls to the history and touches the array and its fill level only.\<close>

definition cli_loop_frame :: "'w client \<Rightarrow> 'w client \<Rightarrow> bool" where
  "cli_loop_frame s s' \<longleftrightarrow> None \<notin> set (cli_buffer s') \<and> stdin s' = stdin s \<and> clientfd s' = clientfd s \<and>
     (\<exists>calls. trace s' = trace s @ calls \<and> only_recv (clientfd s) calls)"

abbreviation cli_cleared :: "'w client \<Rightarrow> 'w client" where
  "cli_cleared s \<equiv> s\<lparr>cli_buffer := replicate CLIENT_BUFFER_LENGTH (Some 0)\<rparr>"

lemma cli_frame_step:
  assumes fr: "cli_loop_frame s s1" and rc: "sys_recv os (clientfd s) k s1 = (ans, s2)"
    and st: "store_at (cli_buffer s1) off bs = Ok b"
  shows "cli_loop_frame s (cli_put m b s2)"
proof -
  obtain calls where "trace s1 = trace s @ calls" "only_recv (clientfd s) calls"
    using fr by (auto simp: cli_loop_frame_def)
  then have "trace s2 = trace s @ (calls @ [SysRecv (clientfd s) k (fst ans) (snd ans)])"
    "only_recv (clientfd s) (calls @ [SysRecv (clientfd s) k (fst ans) (snd ans)])"
    by (auto simp: cli_recv_frame(6) [OF rc] only_recv_def)
  then show ?thesis
    using fr store_at_defined [OF st] cli_recv_frame(3,4) [OF rc]
    unfolding cli_loop_frame_def cli_put_def by auto
qed

lemma cli_recv_loop_frame:
  "within {OutOfBounds} (\<lambda>s'. cli_live s' \<and> cli_loop_frame s s')
     (client_recv_loop os (clientfd s) (cli_cleared s))"
proof (rule cli.loop_rule [where I = "cli_loop_frame s"])
  show "cli_live (cli_cleared s)" by (simp add: cli_live_def)
  show "cli_loop_frame s (cli_cleared s)" by (simp add: cli_loop_frame_def only_recv_def)
qed (rule cli_frame_step, assumption+)+

text \<open>The part of a turn after \<open>fgets\<close>.\<close>

definition client_reply :: "'w os \<Rightarrow> byte list \<Rightarrow> 'w client \<Rightarrow> 'w client res" where
  "client_reply os line s =
     andThen (client_recv_loop os (clientfd s) (cli_cleared (sys_send os (clientfd s) (map Some line) s))) (\<lambda>s.
     andThen (cstr (cli_buffer s)) (\<lambda>answer. Ok (log (OutRecv answer) s)))"

definition turned :: "byte list \<Rightarrow> byte list \<Rightarrow> 'w client \<Rightarrow> 'w client \<Rightarrow> bool" where
  "turned line answer s s' \<longleftrightarrow> cli_live s' \<and> stdin s' = stdin s \<and> clientfd s' = clientfd s \<and>
     cstr (cli_buffer s') = Ok answer \<and>
     (\<exists>calls. trace s' = trace s @ [SysSend (clientfd s) (map Some line)] @ calls @ [OutRecv answer] \<and>
        only_recv (clientfd s) calls)"

lemma client_turn_unfold:
  "client_turn os s = andThen (fgets CLIENT_BUFFER_LENGTH (s\<lparr>cli_rlen := 0\<rparr>)) (\<lambda>s.
     andThen (cstr (cli_buffer s)) (\<lambda>line. client_reply os line s))"
  by (simp add: client_turn_def client_reply_def Let_def)

lemma client_reply_tail:
  assumes "cli_live s1" and "cli_loop_frame (sys_send os (clientfd s) (map Some line) s) s1"
    and "cstr (cli_buffer s1) = Ok answer"
  shows "turned line answer s (log (OutRecv answer) s1)"
  using assms by (auto simp: turned_def cli_loop_frame_def cli_live_def)

lemma client_reply_effect:
  "within {OutOfBounds} (\<lambda>s'. \<exists>answer. turned line answer s s') (client_reply os line s)"
  unfolding client_reply_def
proof (rule within_andThen)
  show "within {OutOfBounds} (\<lambda>s'. cli_live s' \<and> cli_loop_frame (sys_send os (clientfd s) (map Some line) s) s')
    (client_recv_loop os (clientfd s) (cli_cleared (sys_send os (clientfd s) (map Some line) s)))"
    using cli_recv_loop_frame [of "sys_send os (clientfd s) (map Some line) s" os] by simp
next
  fix s1
  assume s1: "cli_live s1 \<and> cli_loop_frame (sys_send os (clientfd s) (map Some line) s) s1"
  then have "None \<notin> set (cli_buffer s1)" by (simp add: cli_loop_frame_def)
  then consider m where "cstr (cli_buffer s1) = Ok m" | "cstr (cli_buffer s1) = Fault OutOfBounds"
    using cstr_fault cstr_returns by (metis not_None_eq obj_sumE)
  then show "within {OutOfBounds} (\<lambda>s'. \<exists>answer. turned line answer s s')
    (andThen (cstr (cli_buffer s1)) (\<lambda>answer. Ok (log (OutRecv answer) s1)))"
  proof cases
    case (1 m)
    then show ?thesis using client_reply_tail [of s1 os s line m] s1 by auto
  qed simp
qed

lemma client_reply_message:
  assumes cs: "delivers os (clientfd s) CLIENT_BUFFER_LENGTH 0 cs
      (kernel (sys_send os (clientfd s) (map Some line) s))"
    and len: "cli_rlen s = 0" and short: "length (concat cs) < CLIENT_BUFFER_LENGTH"
  shows "holds (turned line (takeWhile (\<lambda>b. b \<noteq> 0) (concat cs)) s) (client_reply os line s)"
  unfolding client_reply_def
proof (rule holds_andThen)
  let ?s = "sys_send os (clientfd s) (map Some line) s"
  have "holds (\<lambda>s'. cli_live s' \<and> cli_rlen s' = int (0 + length (concat cs)) \<and>
      0 + length (concat cs) \<le> CLIENT_BUFFER_LENGTH \<and>
      cli_buffer s' = take 0 (cli_buffer (cli_cleared ?s)) @ map Some (concat cs) @
        drop (0 + length (concat cs)) (cli_buffer (cli_cleared ?s))) (client_recv_loop os (clientfd s) (cli_cleared ?s))"
    by (rule cli.loop_delivers) (use cs len in \<open>simp_all add: cli_live_def\<close>)
  from holds_within_conj [OF this] cli_recv_loop_frame [of ?s os]
  show "holds (\<lambda>s'. cli_live s' \<and> cli_loop_frame ?s s' \<and>
      cli_buffer s' = map Some (concat cs) @ replicate (CLIENT_BUFFER_LENGTH - length (concat cs)) (Some 0))
    (client_recv_loop os (clientfd s) (cli_cleared ?s))"
    by (force simp: holds_iff)
next
  fix s1
  assume s1: "cli_live s1 \<and> cli_loop_frame (sys_send os (clientfd s) (map Some line) s) s1 \<and>
    cli_buffer s1 = map Some (concat cs) @ replicate (CLIENT_BUFFER_LENGTH - length (concat cs)) (Some 0)"
  obtain k where "CLIENT_BUFFER_LENGTH - length (concat cs) = Suc k" using short by (metis Suc_diff_Suc)
  then have "cstr (cli_buffer s1) = Ok (takeWhile (\<lambda>b. b \<noteq> 0) (concat cs))"
    using s1 by (simp add: cstr_takeWhile)
  then show "holds (turned line (takeWhile (\<lambda>b. b \<noteq> 0) (concat cs)) s)
    (andThen (cstr (cli_buffer s1)) (\<lambda>answer. Ok (log (OutRecv answer) s1)))"
    using client_reply_tail [of s1 os s line] s1 by simp
qed

text \<open>What \<open>fgets\<close> leaves: a line and its end, or at the end of the input nothing new.\<close>

lemma fgets_line:
  assumes "cli_live s" and "stdin s \<noteq> []" and g: "get_line (CLIENT_BUFFER_LENGTH - 1) (stdin s) = (l, rest)"
  shows "\<exists>b. fgets CLIENT_BUFFER_LENGTH s = Ok (s\<lparr>stdin := rest, cli_buffer := b\<rparr>) \<and>
    length b = CLIENT_BUFFER_LENGTH \<and> cstr b = Ok (takeWhile (\<lambda>b. b \<noteq> 0) l)"
proof -
  have "store_at (cli_buffer s) 0 (l @ [0]) = Ok (map Some l @ Some 0 # drop (Suc (length l)) (cli_buffer s))"
    using assms(1) get_line_length [OF g]
    by (simp add: store_at_def cli_live_def CLIENT_BUFFER_LENGTH_def)
  moreover have "length (map Some l @ Some 0 # drop (Suc (length l)) (cli_buffer s)) = CLIENT_BUFFER_LENGTH"
    using assms(1) get_line_length [OF g] by (simp add: cli_live_def CLIENT_BUFFER_LENGTH_def)
  ultimately show ?thesis using assms(2) g
    by (intro exI [of _ "map Some l @ Some 0 # drop (Suc (length l)) (cli_buffer s)"])
      (simp add: fgets_def cstr_takeWhile)
qed

lemma client_turn_line:
  assumes "cli_live s" and "stdin s \<noteq> []" and g: "get_line (CLIENT_BUFFER_LENGTH - 1) (stdin s) = (l, rest)"
  obtains s1 where "client_turn os s = client_reply os (takeWhile (\<lambda>b. b \<noteq> 0) l) s1"
    "stdin s1 = rest" "trace s1 = trace s" "clientfd s1 = clientfd s" "kernel s1 = kernel s" "cli_rlen s1 = 0"
proof -
  obtain b where b: "fgets CLIENT_BUFFER_LENGTH (s\<lparr>cli_rlen := 0\<rparr>) = Ok (s\<lparr>cli_rlen := 0, stdin := rest, cli_buffer := b\<rparr>)"
    "cstr b = Ok (takeWhile (\<lambda>b. b \<noteq> 0) l)"
    using fgets_line [of "s\<lparr>cli_rlen := 0\<rparr>" l rest] assms by (auto simp: cli_live_def)
  show thesis
    by (rule that [of "s\<lparr>cli_rlen := 0, stdin := rest, cli_buffer := b\<rparr>"])
      (use b in \<open>simp_all add: client_turn_unfold\<close>)
qed

section \<open>What is sent\<close>

fun sent_data :: "syscall list \<Rightarrow> cell list" where
  "sent_data [] = []"
| "sent_data (SysSend f cs # t) = cs @ sent_data t"
| "sent_data (_ # t) = sent_data t"

lemma sent_data_append [simp]: "sent_data (t @ u) = sent_data t @ sent_data u"
  by (induction t rule: sent_data.induct) auto




section \<open>The conversation\<close>





section \<open>Setting up\<close>



lemma lines_shape: "l \<in> set (lines n inp) \<Longrightarrow> l \<noteq> [] \<and> length l \<le> n \<and> newline \<notin> set (butlast l)"
proof (induction n inp rule: lines.induct)
  case (1 n inp)
  show ?case
  proof (cases "n = 0 \<or> inp = []")
    case False
    obtain k rest where g: "get_line n inp = (k, rest)" by (metis surj_pair)
    have "k \<noteq> []" using False g by (cases n; cases inp) (auto split: if_splits prod.splits)
    moreover have "l = k \<or> l \<in> set (lines n rest)"
      using 1(2) False g by (subst (asm) lines.simps) auto
    ultimately show ?thesis
      using 1(1) [OF False g [symmetric]] get_line_length [OF g] get_line_newline [OF g] by auto
  qed (use 1(2) in \<open>simp add: lines.simps\<close>)
qed

text \<open>A client with the given input, connected to a peer that answers every message alike.\<close>

definition typed :: "byte list \<Rightarrow> sim client" where
  "typed inp = fresh_client inp (sim0\<lparr>sim_in := (\<lambda>_. [Chunk [79], Chunk [75]])\<rparr>)"

section \<open>Properties\<close>



text \<open>
  One turn: the client reads one line, sends it, and prints the answer, whatever the chunks it
  arrives in, if that has fewer than 1024 bytes.
\<close>

theorem client_turn_exchanges:
  assumes "cli_live s" and "stdin s \<noteq> []" and "get_line (CLIENT_BUFFER_LENGTH - 1) (stdin s) = (line, rest)"
    and "0 \<notin> set line" and "delivers os (clientfd s) CLIENT_BUFFER_LENGTH 0 cs (snd (os_send os (clientfd s) (map Some line) (kernel s)))"
    and "length (concat cs) < CLIENT_BUFFER_LENGTH"
  shows "\<exists>s' calls. client_turn os s = Ok s' \<and> stdin s' = rest \<and> only_recv (clientfd s) calls \<and>
    trace s' = trace s @ [SysSend (clientfd s) (map Some line)] @ calls @
      [OutRecv (takeWhile (\<lambda>b. b \<noteq> 0) (concat cs))]"
proof -
  have "takeWhile (\<lambda>b. b \<noteq> 0) line = line" using assms(4) by (auto simp: takeWhile_eq_all_conv)
  then obtain s1 where s1: "client_turn os s = client_reply os line s1" "stdin s1 = rest" "trace s1 = trace s"
    "clientfd s1 = clientfd s" "kernel s1 = kernel s" "cli_rlen s1 = 0"
    using client_turn_line [OF assms(1-3), of os] by metis
  have "delivers os (clientfd s1) CLIENT_BUFFER_LENGTH 0 cs (kernel (sys_send os (clientfd s1) (map Some line) s1))"
    using assms(5) s1 by (auto simp: sys_send_def split: prod.splits)
  from client_reply_message [OF this s1(6) assms(6)] show ?thesis
    by (auto simp: holds_iff turned_def s1)
qed

theorem client_turn_exchanges_witness:
  "\<exists>s'. client_turn (sim_os True) (typed [72, 10, 73]) = Ok s' \<and> stdin s' = [73] \<and>
     OutRecv [79, 75] \<in> set (trace s')"
  using client_turn_exchanges [of "typed [72, 10, 73]" "[72, 10]" "[73]" "sim_os True" "[[79], [75]]"]
  by (auto simp: CLIENT_BUFFER_LENGTH_def typed_def fresh_client_def cli_live_def newline_def
      sim_os_def would_block_def)

text \<open>
  The result of \<open>fgets\<close> is not looked at: at the end of the input the client does not stop but
  sends what its buffer holds, the last answer it received, back to the server.
\<close>

theorem client_repeats_at_eof:
  assumes "stdin s = []" and "cstr (cli_buffer s) = Ok last_answer"
  shows "within {OutOfBounds} (\<lambda>s'. stdin s' = [] \<and>
      (\<exists>calls answer. trace s' = trace s @ [SysSend (clientfd s) (map Some last_answer)] @ calls @ [OutRecv answer] \<and>
         only_recv (clientfd s) calls)) (client_turn os s)"
proof -
  let ?s = "s\<lparr>cli_rlen := 0\<rparr>"
  have "client_turn os s = client_reply os last_answer ?s"
    using assms by (simp add: client_turn_unfold fgets_def)
  moreover have "within {OutOfBounds} (\<lambda>s'. stdin s' = [] \<and>
      (\<exists>calls answer. trace s' = trace s @ [SysSend (clientfd s) (map Some last_answer)] @ calls @ [OutRecv answer] \<and>
         only_recv (clientfd s) calls)) (client_reply os last_answer ?s)"
    by (rule within_mono [OF client_reply_effect]) (use assms(1) in \<open>auto simp: turned_def\<close>)
  ultimately show ?thesis by simp
qed

theorem client_repeats_at_eof_witness:
  "within {OutOfBounds} (\<lambda>s'. \<exists>calls answer. trace s' = [SysSend (-1) [Some 79, Some 75]] @ calls @ [OutRecv answer])
    (client_turn (sim_os True) ((typed [])\<lparr>cli_buffer := map Some [79, 75, 0] @ replicate 1021 (Some 0)\<rparr>))"
proof -
  have "cstr (map Some [79, 75, 0] @ replicate 1021 (Some 0)) = Ok [79, 75]" by simp
  then show ?thesis
    by (intro within_mono [OF client_repeats_at_eof [where last_answer = "[79, 75]"]])
      (auto simp: typed_def fresh_client_def)
qed



text \<open>
  With an empty input the first turn reads a buffer that nothing was ever stored in.
\<close>

theorem client_empty_input:
  "client_turn os (fresh_client [] w) = Fault Indeterminate"
proof -
  have "CLIENT_BUFFER_LENGTH = Suc 1023" by (simp add: CLIENT_BUFFER_LENGTH_def)
  then have "replicate CLIENT_BUFFER_LENGTH (None :: cell) = None # replicate 1023 None"
    by (metis replicate_Suc)
  then show ?thesis by (simp add: client_turn_unfold fgets_def fresh_client_def)
qed

text \<open>
  Reading by lines partitions the input: the lines, one after the other, are the input; none is
  longer than the buffer allows, and a newline only ever ends a line.
\<close>

theorem lines_partition:
  assumes "0 < n"
  shows "concat (lines n inp) = inp \<and> (\<forall>l\<in>set (lines n inp). l \<noteq> [] \<and> length l \<le> n \<and> newline \<notin> set (butlast l))"
  using lines_concat [OF assms, of inp] lines_shape [of _ n inp] by blast

theorem lines_partition_witness:
  "concat (lines 1023 [72, 10, 73]) = [72, 10, 73]"
  using lines_partition [of 1023 "[72, 10, 73]"] by simp

end
