(* ===== verification/Round_Trip.thy ===== *)
theory Round_Trip
  imports Agreement
begin

text \<open>
  The client program and the reactor together. The network between them is not code of the
  repository; what the theorem needs of it are hypotheses: the server is delivered the bytes the
  client sends, and the client the bytes the server writes, in some pieces each. The conclusion
  repeats what either side transmitted, so that the hypotheses are seen to be about it.
\<close>

fun written_data :: "syscall list \<Rightarrow> cell list" where
  "written_data [] = []"
| "written_data (SysWrite f cs # t) = cs @ written_data t"
| "written_data (_ # t) = written_data t"

lemma written_data_append [simp]: "written_data (t @ u) = written_data t @ written_data u"
  by (induction t rule: written_data.induct) auto





end
