(* ===== verification/Spec2Isabelle.thy ===== *)
theory Spec2Isabelle
  imports Survival Heap_Accounts Round_Spec Pool_Spec Round_Trip
begin

text \<open>
  A verification library for the online chat server of this repository: the epoll reactor with its
  echo handlers (\<open>inc/\<close>, \<open>src/\<close>), the thread pool, the database connector, and the three programs
  under \<open>apps/\<close>.

  \<^bold>\<open>The program.\<close> \<open>apps/test-main.cpp\<close> makes an \<open>EventLoop\<close> (which owns the \<open>Epoll\<close> object) and a
  \<open>Server\<close>. The server makes the listening \<open>Socket\<close>, a \<open>Connection\<close>, and registers it with the epoll
  object and \<open>acceptCallback\<close>. The loop waits, and for every connection that is ready runs the callback
  its events ask for: \<open>acceptCallback\<close> makes a client connection and registers it with \<open>recvCallback\<close>
  and \<open>sendCallback\<close>; \<open>recvCallback\<close> drains the descriptor into the connection's buffer, prints it
  and asks for \<open>EPOLLOUT\<close>; \<open>sendCallback\<close> writes the message back and deletes the connection. The
  objects share each other by pointer; ownership is informal, and the main question of the
  development is whether a pointer can ever be followed after its object was deleted.

  \<^bold>\<open>The theories, and what they model.\<close>
  \<^item> \<open>Prelude\<close>: outcomes (\<open>'a res\<close>: a value, a fault, or no return), pointers and object stores
    (locale \<open>object_store\<close>), C strings in arrays (\<open>cstr\<close>, \<open>strcpy\<close>, \<open>strcat\<close>), transition
    systems with an invariant (locale \<open>step_system\<close>) and one that implements another (\<open>simulation\<close>).
  \<^item> \<open>Os\<close>: the system calls, as the fields of a record \<open>'w os\<close> over an arbitrary kernel state, the
    wrappers that record each call in \<open>trace\<close>, and the documented behaviour the proofs rely on as
    named predicates (\<open>epoll_contract\<close>, \<open>fd_contract\<close>, \<open>recv_contract\<close>, \<open>recv_soft\<close>). \<open>Sim_Kernel\<close> is an executable
    kernel that meets them, \<open>Scenarios\<close> has concrete processes over it.
  \<^item> \<open>Util\<close>: \<open>src/log/util.cpp\<close>. \<open>InetAddress\<close>, \<open>Connection\<close>, \<open>Socket\<close>, \<open>Epoll\<close>, \<open>Server\<close>, \<open>EventLoop\<close>:
    the classes of the same names under \<open>inc/\<close> and \<open>src/\<close>; one definition per method, on a state that
    grows by record extension from \<open>machine\<close> (kernel, trace) over \<open>inet_heap\<close> and \<open>conn_heap\<close> (the
    objects made with \<open>new\<close>) to \<open>reactor\<close> (the members of the one \<open>Epoll\<close> object). \<open>Test_Main\<close>: the
    program.
  \<^item> \<open>Drain\<close>: what the three copies of the receive loop have in common (locale \<open>drain_loop\<close>: proof rule,
    functional behaviour, total correctness, behaviour on hard errors, agreement with the reference
    loop \<open>drain_ref\<close>, what a burst of \<open>recv\<close> calls stores and records: \<open>burst_read\<close>, and what any
    sequence of replies, hard errors included, leaves in the array: \<open>replies\<close>, \<open>played\<close>). It is interpreted on
    \<open>recv_loop\<close> (\<open>Server\<close>), \<open>app_recv_loop\<close> (\<open>App_Server\<close>) and \<open>client_recv_loop\<close> (\<open>App_Client\<close>).
  \<^item> \<open>Lifetime\<close>: the invariant \<open>reactor_inv\<close> that relates heap, registry and the kernel's interest list;
    every handler keeps it, which interprets the event loop's interface \<open>callbacks\<close> (\<open>EventLoop\<close>) on
    the server's handlers.
  \<^item> \<open>Descriptors\<close>: an automaton per file descriptor (\<open>fd_step\<close>) and the map \<open>role\<close> from the program's
    memory to its states; every handler keeps the correspondence, and \<open>callbacks\<close> is interpreted once
    more, on the stronger invariant \<open>ledger\<close>. Further interpretations strengthen that one
    (lemma \<open>strengthened\<close> of the interface): \<open>Echo_Spec\<close>, an abstract echo service over the trace (what was
    heard on a descriptor since it was accepted, and the answer due), and \<open>Heap_Accounts\<close>, which counts the
    connections on the heap against the accepted, refused and closed descriptors of the trace. \<open>Survival\<close>
    adds to \<open>Echo_Spec\<close> that what is stored and what is still to come fit in the buffer, and interprets the
    interface without any fault.
  \<^item> \<open>Rounds\<close>: one round for one client, receiving and answering. \<open>Round_Spec\<close>: a round as a function of
    the kernel's report. \<open>Isolation\<close>: which connections a handler and a round can change.
  \<^item> \<open>Layout\<close>: what the class declarations promise and C++ does not check: array sizes, definite
    initialisation in sequences of method calls; and that a round of the reactor ends.
  \<^item> \<open>ThreadPool\<close>: \<open>inc/threadpool/ThreadPool.hpp\<close>, \<open>src/threadpool/ThreadPool.cpp\<close>, as a step relation
    over the places of the worker loop; conservation of tasks, no lost wake-up, termination of
    shutdown by a measure. \<open>Pool_Spec\<close>: the task queue a user of the pool sees, without threads, and the
    simulation of it by the pool.
  \<^item> \<open>GaussConnector\<close>: \<open>inc/opengauss/GaussConnector.hpp\<close>, \<open>src/opengauss/GaussConnector.cpp\<close> over a
    record \<open>'d pq\<close> of libpq's calls; the contract of a command is the locale \<open>db_command\<close>, interpreted
    on \<open>insert\<close>, \<open>update\<close> and \<open>omit\<close>.
  \<^item> \<open>App_Server\<close>, \<open>App_Client\<close>: \<open>apps/server.cpp\<close> and \<open>apps/client.cpp\<close>. \<open>Agreement\<close>: where the programs
    do the same, and that none of them hangs. \<open>Round_Trip\<close>: the client and the reactor together.

  \<^bold>\<open>How code becomes definitions.\<close> A member or local that is not initialised is \<open>None\<close>, and reading it
  is the fault \<open>Indeterminate\<close>; following a null or deleted pointer, leaving an array and calling an
  empty \<open>std::function\<close> are faults of their own, and \<open>exit\<close> is \<open>ProcessExit\<close>. Lengths kept in \<open>int\<close>
  variables are integers: the model faults as soon as one leaves its array's bounds, long before the
  type's range. Event masks and addresses are words of their width. A store through a pointer that
  a getter returned is an update of the object the pointer belongs to. The receive loops may run
  forever (a \<open>recv\<close> that always succeeds with no progress is impossible, but the error path loops), so
  they are partial functions, and their return is proved (C11). The event loop, the older server's and
  the client's \<open>while(true)\<close> have no exit; they are modelled by their finite prefixes, of any number
  \<open>n\<close> of rounds, so no fuel is ever too small.

  \<^bold>\<open>What the theorems show.\<close> C1 to C4, C6, C7, C9, C10, C12 and C23 are about the whole reactor, in
  every state \<open>main\<close> can reach: lifetime safety against an arbitrary kernel (C1); the trace of the program as
  an echo service, every answer being the answer to what was read since the descriptor was accepted (C2);
  that it never stops while its clients send less than its buffer holds (C3); the protocol every
  descriptor follows and its ownership (C4, C12); the agreement of registry and interest list (C6); the
  echo of a message through two rounds of the loop (C7); an account of every connection on the heap
  (C9); that a round serves whatever is reported, in that order (C10); the isolation of the clients from
  each other (C23). C8 adds the client at the other end. C11 says that no program hangs within a round, C15
  that the three receive loops are the same loop, C29 that the two servers print the same. C24 is about
  the types of a connection. C13 and C14 give \<open>recvCallback\<close> as a function of what \<open>recv\<close> returned, without
  hard errors and with them; C25, C26 and C33 to C38 say what the reactor's operations do, on their error
  branches too: what a stale length and an embedded NUL do (C33, C34), what a failed \<open>recv\<close> and a failed
  \<open>accept\<close> leave behind (C35, C36). C5, C18 to C22 and C40 are about the thread pool (C5: it implements
  its specification), C30 to C32 about the connector, C17, C28 and C39 about the older server (C17: every
  run of it, as a log of bursts; C39: its receiving branch on every reply of \<open>recv\<close>), C16 and C27 about the
  client (C16: every run of it, as a conversation). Properties of one component stand in its theory; those
  that span components stand in a theory above them or here. The theories also prove smaller facts
  without a number, for instance on byte order, line splitting, mutual exclusion and thread counts.

  \<^bold>\<open>Not modelled.\<close> libpq and the vendored headers under \<open>inc/opengauss/\<close> (declarations of the database
  client's library, which the program only calls) except the two enumerations the connector uses; the
  network between the programs, whose delivery of bytes is a hypothesis of C8; the text of \<open>printf\<close> lines
  beyond the data they show; the futures \<open>enqueue\<close> returns (a task is an opaque value, and the line that
  makes the future does not compile); memory exhaustion; the reuse of a freed address by a later \<open>new\<close>;
  that \<open>sendCallback\<close> destroys, with its connection, the \<open>std::function\<close> object through which it is
  being called. Beyond these the map leaves out only includes, forward declarations and prototypes.
\<close>

section \<open>The program as a whole\<close>



text \<open>
  C6: In every state the event loop can reach, whatever descriptor the kernel watches is filed in
  \<open>connMap\<close> under its own number, as a live connection that knows it is registered and carries a
  receive callback; and if it is watched for \<open>EPOLLOUT\<close>, its receive buffer holds a terminated text
  and a length within the buffer, so that \<open>sendCallback\<close> has something to send.
\<close>

theorem watched_are_registered:
  assumes "epoll_contract os watch" and "watch w = Map.empty"
    and "reach (\<lambda>s. boot os loop_mem (fresh_process w) = Ok s) (loop_step os (run_callback os) t) s"
    and "watch (kernel s) f = Some e"
  shows "0 \<le> f \<and> data_fd e = f \<and> (\<exists>a c. connMap s f = Some (Ptr a) \<and> conns s a = Some c \<and> conn_fd c = f \<and>
    inEpoll c \<and> recvCb c \<noteq> None \<and>
    (has_flag (events e) EPOLLOUT \<longrightarrow> sendCb c = Some (Bound SendCallback (Ptr a)) \<and>
       (\<exists>txt. cstr (rbuffer c) = Ok txt) \<and> 0 \<le> rlen c \<and> rlen c \<le> int RECV_BUFFER_LENGTH))"
proof -
  have "served os watch s"
    using assms(3)
  proof (induction rule: reach.induct)
    case (reach_init s)
    then show ?case using boot_inv assms(1,2) by (auto simp: served_def)
  next
    case (reach_step s s')
    then show ?case using server.rounds.inv_step by blast
  qed
  then have inv: "watch_ok watch s" "map_ok s" by (simp_all add: served_def reactor_inv_def)
  with assms(4) obtain a c where c: "0 \<le> f" "data_fd e = f" "connMap s f = Some (Ptr a)" "conns s a = Some c"
    "has_flag (events e) EPOLLOUT \<longrightarrow> sendable c"
    unfolding watch_ok_def by blast
  then have "conn_fd c = f \<and> conn_ok a c" using inv(2) unfolding map_ok_def by (metis option.inject)
  with c show ?thesis
    by (auto simp: conn_ok_def is_listener_def is_client_def sendable_defs)
qed

theorem watched_are_registered_witness:
  "\<exists>s a. boot (sim_os True) Null (fresh_process sim0) = Ok s \<and> connMap s 3 = Some (Ptr a)"
proof -
  obtain s e where s: "boot (sim_os True) Null (fresh_process sim0) = Ok s" "sim_watch (kernel s) 3 = Some e"
    using simulated_boot by blast
  have "reach (\<lambda>s. boot (sim_os True) Null (fresh_process sim0) = Ok s)
      (loop_step (sim_os True) (run_callback (sim_os True)) (-1)) s"
    using s(1) by (rule reach_init)
  from watched_are_registered [OF sim_contract _ this s(2)] s(1) show ?thesis
    by (auto simp: sim0_def)
qed



section \<open>Receiving and sending\<close>

text \<open>
  The server echoes. On a client connection without earlier data, a message of fewer than 2048
  bytes and without a NUL, however it is cut into chunks, is printed by \<open>recvCallback\<close>, which
  switches the registration to \<open>EPOLLOUT\<close>; the following \<open>sendCallback\<close> writes exactly the message,
  then deregisters the descriptor, then closes it, and the connection is gone from heap and registry.
\<close>

theorem message_is_echoed:
  assumes "conns s a = Some c" and "conn_ok a c" and "rlen c = 0"
    and "inetAddr c = Ptr b" and "inets s b = Some i"
    and "delivers os (conn_fd c) RECV_BUFFER_LENGTH 0 cs (kernel s)"
    and "length (concat cs) < RECV_BUFFER_LENGTH" and "0 \<notin> set (concat cs)"
  shows "\<exists>s' calls. andThen (recvCallback os (Ptr a) s) (sendCallback os (Ptr a)) = Ok s' \<and>
    only_recv (conn_fd c) calls \<and>
    trace s' = trace s @ calls @ [OutRecv (concat cs),
      SysEpollCtl EPOLL_CTL_MOD (conn_fd c) (Some \<lparr>events = EPOLLOUT, data_fd = conn_fd c\<rparr>),
      SysWrite (conn_fd c) (map Some (concat cs)), SysEpollCtl EPOLL_CTL_DEL (conn_fd c) None,
      SysClose (conn_fd c)] \<and>
    conns s' = (conns s)(a := None) \<and> connMap s' = (connMap s)(conn_fd c \<mapsto> Null)"
proof -
  have whole: "rx_text 0 (concat cs) = concat cs" by (rule rx_text_whole [OF assms(8)])
  show ?thesis using receive_then_send [of s a c b i os cs] assms(1-7)
    by (auto simp: conn_ok_def whole)
qed

theorem message_is_echoed_witness:
  "\<exists>s'. andThen (recvCallback (sim_os True) (Ptr 0) (one_client [Chunk [72, 105], Chunk [33]]))
      (sendCallback (sim_os True) (Ptr 0)) = Ok s' \<and>
    SysWrite 4 [Some 72, Some 105, Some 33] \<in> set (trace s') \<and> conns s' 0 = None"
  using message_is_echoed [of "one_client [Chunk [72, 105], Chunk [33]]" 0 "client_conn 4 (Ptr 0) 0"
      0 InetAddress_default "sim_os True" "[[72, 105], [33]]"] one_client_delivers
  by (auto simp: RECV_BUFFER_LENGTH_def)

text \<open>
  The receive loop returns and stays within its array, for every connection whose length is
  within its buffer, provided \<open>recv\<close> fails in no other way than "would block": in that case the new
  length is within the buffer again.
\<close>

theorem recv_loop_returns:
  assumes "recv_contract os" and "recv_soft os" and "conns s a = Some c"
    and "length (rbuffer c) = RECV_BUFFER_LENGTH" and "0 \<le> rlen c" and "rlen c \<le> int RECV_BUFFER_LENGTH"
  shows "holds (\<lambda>s'. \<exists>c'. conns s' a = Some c' \<and> conn_fd c' = conn_fd c \<and>
      length (rbuffer c') = RECV_BUFFER_LENGTH \<and> 0 \<le> rlen c' \<and> rlen c' \<le> int RECV_BUFFER_LENGTH)
    (recv_loop os (Ptr a) s)"
  using rx.loop_returns [OF assms(1,2), where a = a and f = "conn_fd c" and s = s] assms(3-)
  by (auto simp: rx_live_def rx_len_def holds_iff)

theorem recv_loop_returns_witness:
  "\<exists>s' c'. recv_loop (sim_os False) (Ptr 0) (one_client [Chunk [72], Failure 104]) = Ok s' \<and>
     conns s' 0 = Some c' \<and> rlen c' \<le> 2048"
  using recv_loop_returns [OF sim_recv_contract sim_recv_soft, of "one_client [Chunk [72], Failure 104]" 0
      "client_conn 4 (Ptr 0) 0"]
  by (auto simp: holds_iff conn_ok_def [symmetric] RECV_BUFFER_LENGTH_def client_conn_def Connection_fd_def
      Connection_default_def)

text \<open>
  A message of exactly 2048 bytes without a NUL fills the receive buffer and leaves no
  terminator: \<open>recvCallback\<close> prints it with \<open>%s\<close> and reads beyond the array.
\<close>

theorem full_buffer_overruns:
  assumes "conns s a = Some c" and "rlen c = 0"
    and "delivers os (conn_fd c) RECV_BUFFER_LENGTH 0 cs (kernel s)"
    and "length (concat cs) = RECV_BUFFER_LENGTH" and "0 \<notin> set (concat cs)"
  shows "recvCallback os (Ptr a) s = Fault OutOfBounds"
  using assms by (rule recvCallback_full)

theorem full_buffer_overruns_witness:
  "recvCallback (sim_os True) (Ptr 0) (one_client [Chunk (replicate 2048 65)]) = Fault OutOfBounds"
  by (rule full_buffer_overruns [where c = "client_conn 4 (Ptr 0) 0" and cs = "[replicate 2048 65]"])
    (simp_all add: RECV_BUFFER_LENGTH_def)



text \<open>
  If the first \<open>recv\<close> on a connection without data fails hard (any error but "would block"),
  the loop does not end: it adds the \<open>-1\<close> to the length and next writes in front of the array.
\<close>

theorem hard_error_leaves_buffer:
  assumes "conns s a = Some c" and "rlen c = 0"
    and "os_recv os (conn_fd c) RECV_BUFFER_LENGTH (kernel s) = ((-1, []), w)"
    and "\<not> would_block (os_errno os w)"
  shows "recvCallback os (Ptr a) s = Fault OutOfBounds"
proof -
  let ?s = "s\<lparr>conns := (conns s)(a \<mapsto> c\<lparr>rbuffer := replicate RECV_BUFFER_LENGTH (Some 0)\<rparr>)\<rparr>"
  obtain s1 where "sys_recv os (conn_fd c) RECV_BUFFER_LENGTH ?s = ((-1, []), s1)" "kernel s1 = w"
    using assms(3) by (simp add: sys_recv_def)
  then have "recv_loop os (Ptr a) ?s = Fault OutOfBounds"
    using assms(2,4) by (intro rx.loop_hard_error [where f = "conn_fd c"]) (auto simp: rx_live_def rx_len_def)
  then show ?thesis by (simp add: recvCallback_unfold [OF assms(1)])
qed

theorem hard_error_leaves_buffer_witness:
  "recvCallback (sim_os True) (Ptr 0) (one_client [Failure 104]) = Fault OutOfBounds"
  by (rule hard_error_leaves_buffer [where c = "client_conn 4 (Ptr 0) 0" and
        w = "(kernel (one_client [Failure 104]))\<lparr>sim_errno := 104, sim_in := (\<lambda>_. [Failure 104])(4 := [])\<rparr>"])
    (simp_all add: RECV_BUFFER_LENGTH_def would_block_def EAGAIN_def EWOULDBLOCK_def)

text \<open>
  C33: \<open>recvCallback\<close> clears the buffer but not the length. On a connection that has received before,
  the next message is stored behind the old length, so the text it prints is empty, whatever the
  message says.
\<close>

theorem stale_length_hides_message:
  assumes "conns s a = Some c" and "inEpoll c" and "rlen c = int off" and "0 < off" and "off \<le> RECV_BUFFER_LENGTH"
    and "delivers os (conn_fd c) RECV_BUFFER_LENGTH off cs (kernel s)"
    and "off + length (concat cs) < RECV_BUFFER_LENGTH"
  shows "\<exists>s' c' calls. recvCallback os (Ptr a) s = Ok s' \<and> only_recv (conn_fd c) calls \<and>
    trace s' = trace s @ calls @ [OutRecv [], SysEpollCtl EPOLL_CTL_MOD (conn_fd c)
      (Some \<lparr>events = EPOLLOUT, data_fd = conn_fd c\<rparr>)] \<and>
    conns s' a = Some c' \<and> rlen c' = int (off + length (concat cs)) \<and> cstr (rbuffer c') = Ok []"
  using recvCallback_message [OF assms(1,2,3,5-7)] assms(4)
  by (auto simp: holds_iff recv_effect_def rx_text_def received_def only_recv_def)

theorem stale_length_hides_message_witness:
  "\<exists>s'. recvCallback (sim_os True) (Ptr 0) (second_message [Chunk [33]]) = Ok s' \<and> OutRecv [] \<in> set (trace s')"
  using stale_length_hides_message [of "second_message [Chunk [33]]" 0 greeted 2 "sim_os True" "[[33]]"]
  by (auto simp: RECV_BUFFER_LENGTH_def would_block_def)

text \<open>
  C34: The length written is the number of bytes received, but \<open>strcpy\<close> copies only up to the first
  NUL: for a message with an embedded NUL, what follows it on the wire is whatever the send buffer
  held before, on a new connection uninitialised memory.
\<close>

theorem embedded_nul_leaks:
  assumes "conns s a = Some c" and "conn_ok a c" and "rlen c = 0"
    and "inetAddr c = Ptr b" and "inets s b = Some i"
    and "delivers os (conn_fd c) RECV_BUFFER_LENGTH 0 cs (kernel s)"
    and "concat cs = pre @ 0 # post" and "0 \<notin> set pre" and "length (pre @ 0 # post) < RECV_BUFFER_LENGTH"
  shows "\<exists>s'. andThen (recvCallback os (Ptr a) s) (sendCallback os (Ptr a)) = Ok s' \<and>
    SysWrite (conn_fd c) (map Some pre @ Some 0 # take (length post) (drop (Suc (length pre)) (wbuffer c)))
      \<in> set (trace s')"
proof -
  have "takeWhile (\<lambda>b. b \<noteq> 0) (pre @ 0 # post) = pre" using assms(8) by (induction pre) auto
  then have "rx_text 0 (concat cs) = pre" by (simp add: rx_text_def assms(7))
  then show ?thesis using receive_then_send [of s a c b i os cs] assms
    by (auto simp: conn_ok_def)
qed

theorem embedded_nul_leaks_witness:
  "\<exists>s'. andThen (recvCallback (sim_os True) (Ptr 0) (one_client [Chunk [72, 0, 33]])) (sendCallback (sim_os True) (Ptr 0)) = Ok s' \<and>
     SysWrite 4 [Some 72, Some 0, None] \<in> set (trace s')"
  using embedded_nul_leaks [of "one_client [Chunk [72, 0, 33]]" 0 "client_conn 4 (Ptr 0) 0" 0 InetAddress_default
      "sim_os True" "[[72, 0, 33]]" "[72]" "[33]"]
  by (auto simp: RECV_BUFFER_LENGTH_def SEND_BUFFER_LENGTH_def would_block_def)

text \<open>
  C25: \<open>sendCallback\<close> ends a connection's life. It writes, deregisters and closes in this order and
  leaves a null pointer in the registry; afterwards every handler called on the connection, reading
  it, and deleting it again are uses after free.
\<close>

theorem send_ends_connection:
  assumes "conns s a = Some c" and "conn_ok a c" and "echoable c" and "inetAddr c = Ptr b" and "inets s b = Some i"
  shows "\<exists>s' data. sendCallback os (Ptr a) s = Ok s' \<and> length data = nat (rlen c) \<and>
    trace s' = trace s @ [SysWrite (conn_fd c) data, SysEpollCtl EPOLL_CTL_DEL (conn_fd c) None, SysClose (conn_fd c)] \<and>
    connMap s' (conn_fd c) = Some Null \<and> read_conn (Ptr a) s' = Fault UseAfterFree \<and>
    run_callback os (Bound h (Ptr a)) s' = Fault UseAfterFree \<and> delete_conn os (Ptr a) s' = Fault UseAfterFree"
proof -
  obtain m where t: "cstr (rbuffer c) = Ok m" using assms(3) by (auto simp: echoable_def)
  obtain s' where s': "sendCallback os (Ptr a) s = Ok s'"
    "trace s' = trace s @ [SysWrite (conn_fd c) (tx_data c m), SysEpollCtl EPOLL_CTL_DEL (conn_fd c) None,
      SysClose (conn_fd c)]" "conns s' = (conns s)(a := None)" "connMap s' = (connMap s)(conn_fd c \<mapsto> Null)"
    using sendCallback_effect [OF assms(1) _ assms(4,5) _ _ t, of os] assms(2,3)
    by (auto simp: conn_ok_def echoable_def)
  have dead: "read_conn (Ptr a) s' = Fault UseAfterFree" by (simp add: read_conn_def s'(3))
  have "run_callback os (Bound h (Ptr a)) s' = Fault UseAfterFree"
    by (cases h) (simp_all add: run_callback_def acceptCallback_def recvCallback_def sendCallback_def
        Socket_accept_def new_inet_def conn_exec s'(3))
  moreover have "length (tx_data c m) = nat (rlen c)"
  proof -
    have "length m < length (rbuffer c)" using t by (auto simp: cstr_Ok_iff)
    then show ?thesis using assms(2,3)
      by (auto simp: tx_data_def conn_ok_def echoable_def RECV_BUFFER_LENGTH_def SEND_BUFFER_LENGTH_def)
  qed
  ultimately show ?thesis using s' dead by (auto simp: delete_conn_def)
qed

theorem send_ends_connection_witness:
  "\<exists>s'. sendCallback (sim_os True) (Ptr 0) (second_message []) = Ok s' \<and>
     run_callback (sim_os True) (Bound RecvCallback (Ptr 0)) s' = Fault UseAfterFree"
  using send_ends_connection [of "second_message []" 0 greeted 0 InetAddress_default "sim_os True" RecvCallback]
  by auto

section \<open>Accepting and registering\<close>



text \<open>
  C36: A failed \<open>accept\<close> is not noticed: the handler goes on with descriptor \<open>-1\<close>, asks the kernel
  to watch it, and files a new connection under the key \<open>-1\<close>.
\<close>

theorem failed_accept_is_registered:
  assumes "conns s a = Some c" and "fst (fst (os_accept os (conn_fd c) (kernel s))) = -1"
  shows "\<exists>s' c'. acceptCallback os (Ptr a) s = Ok s' \<and> connMap s' (-1) = Some (Ptr (next_conn s)) \<and>
    conns s' (next_conn s) = Some c' \<and> conn_fd c' = -1 \<and> inEpoll c' \<and>
    SysEpollCtl EPOLL_CTL_ADD (-1) (Some \<lparr>events = EPOLLET OR EPOLLIN, data_fd = -1\<rparr>) \<in> set (trace s')"
  using acceptCallback_effect [OF assms(1), of os] assms(2)
  by auto

theorem failed_accept_is_registered_witness:
  "\<exists>s'. acceptCallback (sim_os True) (Ptr 0) (listening 0) = Ok s' \<and> connMap s' (-1) = Some (Ptr 1)"
  using failed_accept_is_registered [of "listening 0" 0 "listener_conn 3 (Ptr 0) 0" "sim_os True"]
    listening_accepts(1) by auto

text \<open>
  \<open>wait\<close> never fails on a consistent registry: it returns at most \<open>MAX_EPOLL_CONN\<close> connections,
  none twice, none null or dangling, each filed in the registry under its descriptor and carrying the
  events that were reported for it; the registry stays consistent.
\<close>

theorem wait_reports_registered:
  assumes "epoll_contract os watch" and "reactor_inv watch s"
  shows "holds (\<lambda>(rs, s'). reactor_inv watch s' \<and> distinct rs \<and> length rs \<le> MAX_EPOLL_CONN \<and>
      (\<forall>p\<in>set rs. \<exists>a c e. p = Ptr a \<and> conns s' a = Some c \<and> revent c = Some e \<and>
         connMap s' (conn_fd c) = Some p))
    (wait os t s)"
proof -
  obtain rs s' where w: "wait os t s = Ok (rs, s')" "reactor_inv watch s'" "distinct rs"
    "\<forall>p\<in>set rs. pending watch s' p" "length rs \<le> MAX_EPOLL_CONN"
    using wait_pending [OF assms, of t] by (auto simp: holds_iff)
  then show ?thesis by (auto simp: pending_def)
qed

theorem wait_reports_registered_witness:
  "\<exists>rs s'. wait (sim_os True) (-1) (listening 1) = Ok (rs, s') \<and> reactor_inv sim_watch s' \<and> distinct rs"
  using wait_reports_registered [OF sim_contract listening_inv, of True "-1" 1] by (auto simp: holds_iff)

text \<open>
  C37: Registration: the first \<open>ACTION_UPDATE\<close> adds the connection and files it, a second one
  modifies the registration, and \<open>ACTION_DELETE\<close> removes it, closes the descriptor and destroys the
  object and its address; \<open>ACTION_DELETE\<close> of a connection that was never registered does nothing.
\<close>

theorem registration_life_cycle:
  assumes "conns s a = Some c" and "\<not> inEpoll c" and "event c = Some e"
    and "inetAddr c = Ptr b" and "inets s b = Some i"
  shows "updateConnection os (Ptr a) ACTION_DELETE s = Ok s \<and>
    (\<exists>s1 s2 s3. updateConnection os (Ptr a) ACTION_UPDATE s = Ok s1 \<and>
      updateConnection os (Ptr a) ACTION_UPDATE s1 = Ok s2 \<and>
      updateConnection os (Ptr a) ACTION_DELETE s2 = Ok s3 \<and>
      connMap s1 (conn_fd c) = Some (Ptr a) \<and> connMap s2 = connMap s1 \<and> connMap s3 (conn_fd c) = Some Null \<and>
      conns s3 = (conns s)(a := None) \<and> inets s3 = (inets s)(b := None) \<and>
      trace s3 = trace s @ [SysEpollCtl EPOLL_CTL_ADD (conn_fd c) (Some e),
        SysEpollCtl EPOLL_CTL_MOD (conn_fd c) (Some e), SysEpollCtl EPOLL_CTL_DEL (conn_fd c) None,
        SysClose (conn_fd c)])"
proof -
  let ?c = "c\<lparr>inEpoll := True\<rparr>"
  obtain s1 where s1: "updateConnection os (Ptr a) ACTION_UPDATE s = Ok s1" "conns s1 = (conns s)(a \<mapsto> ?c)"
    "inets s1 = inets s" "connMap s1 = (connMap s)(conn_fd c \<mapsto> Ptr a)"
    "trace s1 = trace s @ [SysEpollCtl EPOLL_CTL_ADD (conn_fd c) (Some e)]"
    using update_add [OF assms(1-3), of os] by simp
  then obtain s2 where s2: "updateConnection os (Ptr a) ACTION_UPDATE s1 = Ok s2" "conns s2 = conns s1"
    "inets s2 = inets s" "connMap s2 = connMap s1"
    "trace s2 = trace s1 @ [SysEpollCtl EPOLL_CTL_MOD (conn_fd c) (Some e)]"
    using update_mod [of s1 a ?c e os] assms(3) by simp
  obtain s3 where "updateConnection os (Ptr a) ACTION_DELETE s2 = Ok s3" "conns s3 = (conns s)(a := None)"
    "inets s3 = (inets s)(b := None)" "connMap s3 (conn_fd c) = Some Null"
    "trace s3 = trace s2 @ [SysEpollCtl EPOLL_CTL_DEL (conn_fd c) None, SysClose (conn_fd c)]"
    using update_delete [of s2 a ?c os] s1 s2 assms(4,5) by (simp add: delete_conn_live [where c = ?c])
  then show ?thesis
    using update_delete_unregistered [OF assms(1,2), of os] s1 s2 by auto
qed

theorem registration_life_cycle_witness:
  "\<exists>s1 s2 s3. updateConnection (sim_os True) (Ptr 0) ACTION_UPDATE unregistered = Ok s1 \<and>
    updateConnection (sim_os True) (Ptr 0) ACTION_UPDATE s1 = Ok s2 \<and>
    updateConnection (sim_os True) (Ptr 0) ACTION_DELETE s2 = Ok s3 \<and> conns s3 0 = None"
  using registration_life_cycle [of unregistered 0 "(client_conn 4 (Ptr 0) 0)\<lparr>inEpoll := False\<rparr>"
      "\<lparr>events = EPOLLET OR EPOLLIN, data_fd = 4\<rparr>" 0 InetAddress_default "sim_os True"]
  by (auto simp: unregistered_def)

section \<open>Sockets and addresses\<close>



text \<open>
  The constructor's null check looks at the wrong thing the wrong way round. It tests the
  uninitialised member instead of the argument and ends the process when that is \<^emph>\<open>not\<close> null,
  whatever the argument; a null argument is never diagnosed and, if the memory happens to be zero,
  ends in another error or in a null dereference.
\<close>

theorem server_null_check_inverted:
  assumes "loop_mem \<noteq> Null"
  shows "Server_ctor os loop_mem loop_arg s = Fault (ProcessExit ''EventLoop * is nullptr!'') \<and>
    (\<exists>f. Server_ctor os Null Null s = Fault f \<and> f \<noteq> ProcessExit ''EventLoop * is nullptr!'')"
proof
  show "Server_ctor os loop_mem loop_arg s = Fault (ProcessExit ''EventLoop * is nullptr!'')"
    using assms by (simp add: Server_ctor_def)
  show "\<exists>f. Server_ctor os Null Null s = Fault f \<and> f \<noteq> ProcessExit ''EventLoop * is nullptr!''"
    by (simp add: Server_ctor_def errif_andThen Socket_ip_def Socket_bind_def Socket_listen_def
      new_conn_def new_inet_def conn_exec read_inet_def Connection_default_def
      sys_defs log_def Let_def split: prod.splits)
qed

theorem server_null_check_inverted_witness:
  "Server_ctor (sim_os True) (Ptr 7) loop_obj (fresh_process sim0) = Fault (ProcessExit ''EventLoop * is nullptr!'')"
  using server_null_check_inverted [of "Ptr 7" "sim_os True" loop_obj "fresh_process sim0"] by simp

text \<open>
  A socket can not be made from an existing descriptor: \<open>Socket(int, InetAddress*)\<close> tests the
  member, still \<open>-1\<close>, and ends the process, whatever descriptor it is given.
\<close>

theorem socket_from_fd_exits:
  "Socket_fd os f ip s = Fault (ProcessExit ''in Socket: fd==-1!'')"
  by (simp add: Socket_fd_def new_conn_def conn_exec Connection_default_def)

text \<open>
  \<open>htons\<close>: converting a port to network byte order and back gives the port exactly when it fits
  into 16 bits.
\<close>

theorem port_byte_order_roundtrip:
  "uint (swap16 (sin_port (addr (InetAddress_ip os ip port)))) = port \<longleftrightarrow> 0 \<le> port \<and> port < 65536"
  by (simp add: htons_roundtrip)

end
